theory Spec2Isabelle
  imports Complex_Main
begin

section \<open>Data model of the network\<close>

text \<open>
  The network object of \<^verbatim>\<open>pypsa_optimize_gurobi.py\<close> is a collection of tables (pandas data
  frames). A component table is modelled as the list of its rows, in index order; every row
  carries its own identifier. A time-series table is modelled by its index (the snapshots), its
  column labels and its cells. Numbers are modelled as reals: the rounding of floating-point
  multiplication and addition is not part of the model. Identifiers are byte strings (UTF-8).
  Component identifiers are unique within a table (the library refuses duplicates when a
  network is built); theorems that depend on this state it as \<open>distinct\<close>.
\<close>

type_synonym snapshot = nat

record timeseries =
  ts_index :: "snapshot list"
  ts_columns :: "string list"
  ts_value :: "snapshot \<Rightarrow> string \<Rightarrow> real"

record line =
  line_name :: string
  bus0 :: string
  bus1 :: string
  s_nom :: real
  s_nom_extendable :: bool

record load =
  load_name :: string
  bus :: string

record generator =
  gen_name :: string
  p_nom :: real
  control :: string
  carrier :: string
  gen_marginal_cost :: real

record storage_unit =
  storage_name :: string
  cyclic_state_of_charge :: bool
  marginal_cost :: real
  marginal_cost_storage :: real
  spill_cost :: real
  efficiency_store :: real
  max_hours :: real

text \<open>
  \<open>lines_has_s_nom_extendable\<close> says whether \<^verbatim>\<open>'s_nom_extendable'\<close> is among the columns
  of \<^verbatim>\<open>network.lines\<close>; the field \<open>s_nom_extendable\<close> of a row is meaningful only then.
  \<open>generators_t\<close> and \<open>storage_units_t\<close> are the dictionaries of time-series tables, keyed by
  attribute name (\<^verbatim>\<open>network.generators_t.p\<close> is the entry \<open>''p''\<close>).
  \<open>generators_has_str_index\<close> says whether the index of \<^verbatim>\<open>network.generators\<close> is an index of
  strings. A generator table that never held a row has a range index instead; a table that
  holds or has held generators has an index of strings, also when it is empty again.
\<close>

record network =
  buses :: "string list"
  lines :: "line list"
  lines_has_s_nom_extendable :: bool
  loads :: "load list"
  loads_t_p_set :: timeseries
  generators :: "generator list"
  generators_has_str_index :: bool
  generators_t :: "(string \<times> timeseries) list"
  storage_units :: "storage_unit list"
  storage_units_t :: "(string \<times> timeseries) list"
  snapshots :: "snapshot list"
  snapshot_weightings_objective :: "snapshot \<rightharpoonup> real"

datatype error = KeyError | AttributeError

section \<open>Strings\<close>

text \<open>\<^verbatim>\<open>needle in hay\<close> on Python strings: \<open>needle\<close> occurs as a contiguous block.\<close>

fun starts_with :: "string \<Rightarrow> string \<Rightarrow> bool" where
  "starts_with [] hay = True"
| "starts_with (c # cs) [] = False"
| "starts_with (c # cs) (h # hs) = (c = h \<and> starts_with cs hs)"

fun str_contains :: "string \<Rightarrow> string \<Rightarrow> bool" where
  "str_contains needle [] = (needle = [])"
| "str_contains needle (h # hs) = (starts_with needle (h # hs) \<or> str_contains needle hs)"

text \<open>
  \<^verbatim>\<open>str.lower()\<close> on the ASCII letters; every other byte is kept. The codes of \<open>A\<close> to \<open>Z\<close>
  are 65 to 90, and setting bit 5 of such a code adds 32 to it.
\<close>

fun lower_char :: "char \<Rightarrow> char" where
  "lower_char (Char b0 b1 b2 b3 b4 b5 b6 b7) =
     (let k = (of_char (Char b0 b1 b2 b3 b4 b5 b6 b7) :: nat)
      in if 65 \<le> k \<and> k \<le> 90 then Char b0 b1 b2 b3 b4 True b6 b7
         else Char b0 b1 b2 b3 b4 b5 b6 b7)"

definition lower :: "string \<Rightarrow> string" where
  "lower s = map lower_char s"

section \<open>Synthetic Line Capacity Fixer\<close>

text \<open>Lines 15-16: the identifiers that contain one of the keywords, after lower-casing.\<close>

definition line_keywords :: "string list" where
  "line_keywords = [''new'', ''<->'', ''artificial'']"

definition is_keyword_line :: "string \<Rightarrow> bool" where
  "is_keyword_line nm = list_ex (\<lambda>keyword. str_contains keyword (lower nm)) line_keywords"

definition keyword_lines :: "network \<Rightarrow> string list" where
  "keyword_lines n = filter is_keyword_line (map line_name (lines n))"

text \<open>Line 21: the identifiers of the rows whose capacity equals zero.\<close>

definition zero_capacity_lines :: "network \<Rightarrow> string list" where
  "zero_capacity_lines n = map line_name (filter (\<lambda>r. s_nom r = 0) (lines n))"

text \<open>Lines 15-23: the keyword match, and the zero-capacity rows only if it is empty.\<close>

definition artificial_lines :: "network \<Rightarrow> string list" where
  "artificial_lines n =
     (if keyword_lines n = [] then
        (if zero_capacity_lines n \<noteq> [] then zero_capacity_lines n else keyword_lines n)
      else keyword_lines n)"

text \<open>
  \<^verbatim>\<open>df[col].max()\<close>: the largest cell of a column; NaN (here \<open>None\<close>) when the table has no
  row. Python's \<^verbatim>\<open>max(a, b)\<close> keeps \<open>a\<close> when \<open>b\<close> is NaN.
\<close>

definition series_max :: "timeseries \<Rightarrow> string \<Rightarrow> real option" where
  "series_max df c =
     (case ts_index df of
        [] \<Rightarrow> None
      | t # ts \<Rightarrow> Some (fold (\<lambda>u m. max m (ts_value df u c)) ts (ts_value df t c)))"

definition py_max :: "real \<Rightarrow> real option \<Rightarrow> real" where
  "py_max a b = (case b of None \<Rightarrow> a | Some v \<Rightarrow> max a v)"

text \<open>Lines 30-33: the inner loop over the rows of the load table, for one bus.\<close>

fun bus_demand_loop :: "network \<Rightarrow> string \<Rightarrow> load list \<Rightarrow> real \<Rightarrow> real" where
  "bus_demand_loop n b [] bus_demand = bus_demand"
| "bus_demand_loop n b (l # ls) bus_demand =
     bus_demand_loop n b ls
       (if bus l = b \<and> load_name l \<in> set (ts_columns (loads_t_p_set n))
        then py_max bus_demand (series_max (loads_t_p_set n) (load_name l))
        else bus_demand)"

text \<open>Lines 28-34: the dictionary of peak demands, one entry per bus of the bus table.\<close>

definition bus_max_demand :: "network \<Rightarrow> string \<rightharpoonup> real" where
  "bus_max_demand n =
     fold (\<lambda>b m. m(b \<mapsto> bus_demand_loop n b (loads n) 0)) (buses n) Map.empty"

text \<open>\<^verbatim>\<open>bus_max_demand.get(b, 0)\<close>.\<close>

definition get_demand :: "(string \<rightharpoonup> real) \<Rightarrow> string \<Rightarrow> real" where
  "get_demand m b = (case m b of None \<Rightarrow> 0 | Some d \<Rightarrow> d)"

text \<open>
  \<^verbatim>\<open>network.lines.loc[line_name, col]\<close> reads the row with that identifier;
  \<^verbatim>\<open>network.lines.loc[line_name, col] = v\<close> writes the cell of every row with it.
\<close>

definition loc_line :: "line list \<Rightarrow> string \<Rightarrow> line option" where
  "loc_line rows nm = find (\<lambda>r. line_name r = nm) rows"

definition set_line :: "string \<Rightarrow> (line \<Rightarrow> line) \<Rightarrow> line list \<Rightarrow> line list" where
  "set_line nm f rows = map (\<lambda>r. if line_name r = nm then f r else r) rows"

text \<open>Lines 48-52: the capacity from the two endpoint demands.\<close>

definition safety_factor :: real where
  "safety_factor = 3.0"

definition required_capacity :: "real \<Rightarrow> real \<Rightarrow> real" where
  "required_capacity bus0_demand bus1_demand =
     max (max bus0_demand bus1_demand * safety_factor) 1000"

text \<open>
  Lines 37-67: one pass of the loop body, on the line table and the flag that says whether the
  extendability column exists. The identifiers come from the index of the table, so the row is
  found; the table is left alone in the other case, which the loop never meets.
\<close>

definition fix_line ::
  "(string \<rightharpoonup> real) \<Rightarrow> string \<Rightarrow> line list \<times> bool \<Rightarrow> line list \<times> bool" where
  "fix_line demand nm st =
     (case st of (rows, has_col) \<Rightarrow>
        (case loc_line rows nm of
           None \<Rightarrow> (rows, has_col)
         | Some r \<Rightarrow>
             let cap = required_capacity (get_demand demand (bus0 r)) (get_demand demand (bus1 r));
                 rows1 = set_line nm (\<lambda>x. x\<lparr>s_nom := cap\<rparr>) rows;
                 rows2 = (if has_col then rows1
                          else map (\<lambda>x. x\<lparr>s_nom_extendable := False\<rparr>) rows1)
             in (set_line nm (\<lambda>x. x\<lparr>s_nom_extendable := False\<rparr>) rows2, True)))"

definition fix_artificial_lines_reasonable :: "network \<Rightarrow> network" where
  "fix_artificial_lines_reasonable n =
     (case fold (fix_line (bus_max_demand n)) (artificial_lines n)
             (lines n, lines_has_s_nom_extendable n) of
        (rows, has_col) \<Rightarrow> n\<lparr>lines := rows, lines_has_s_nom_extendable := has_col\<rparr>)"

section \<open>Storage Parameter Normalizer\<close>

text \<open>\<^verbatim>\<open>network.storage_units.loc[storage_name, col] = v\<close>.\<close>

definition set_storage ::
  "string \<Rightarrow> (storage_unit \<Rightarrow> storage_unit) \<Rightarrow> storage_unit list \<Rightarrow> storage_unit list" where
  "set_storage nm f rows = map (\<lambda>u. if storage_name u = nm then f u else u) rows"

text \<open>
  Lines 103-127: the body of the loop over the storage identifiers. The five assignments come
  first; the test on \<^verbatim>\<open>'PHS'\<close> comes before the test on \<^verbatim>\<open>'hydro'\<close>, as in the source.
\<close>

definition normalize_storage_unit :: "string \<Rightarrow> storage_unit list \<Rightarrow> storage_unit list" where
  "normalize_storage_unit nm rows =
     (let rows1 = set_storage nm (\<lambda>u. u\<lparr>cyclic_state_of_charge := False\<rparr>) rows;
          rows2 = set_storage nm (\<lambda>u. u\<lparr>marginal_cost := 0.01\<rparr>) rows1;
          rows3 = set_storage nm (\<lambda>u. u\<lparr>marginal_cost_storage := 0.01\<rparr>) rows2;
          rows4 = set_storage nm (\<lambda>u. u\<lparr>spill_cost := 0.1\<rparr>) rows3;
          rows5 = set_storage nm (\<lambda>u. u\<lparr>efficiency_store := 0.866025\<rparr>) rows4
      in if str_contains ''PHS'' nm then set_storage nm (\<lambda>u. u\<lparr>max_hours := 8.0\<rparr>) rows5
         else if str_contains ''hydro'' nm then set_storage nm (\<lambda>u. u\<lparr>max_hours := 6.0\<rparr>) rows5
         else rows5)"

text \<open>Lines 101-127: the loop, over the index of the storage table.\<close>

definition normalize_storage_units :: "network \<Rightarrow> network" where
  "normalize_storage_units n =
     n\<lparr>storage_units :=
         fold normalize_storage_unit (map storage_name (storage_units n)) (storage_units n)\<rparr>"

section \<open>Invalid Generator Pruner\<close>

text \<open>
  Lines 80-82: \<^verbatim>\<open>index.str.contains('offwind', case=False, na=False)\<close> is a search with a
  regular expression under the flag \<^verbatim>\<open>IGNORECASE\<close>. The marker has no special character, so
  the search is for its letters, each in either case. Under that flag the letter \<open>i\<close> also
  matches the code points U+0130 and U+0131, which are the bytes C4 B0 and C4 B1 of an
  identifier in UTF-8; no other letter of the marker has such a partner. The pattern is given
  in lower case.
\<close>

fun match_ignorecase :: "string \<Rightarrow> string \<Rightarrow> bool" where
  "match_ignorecase [] hay = True"
| "match_ignorecase (c # cs) [] = False"
| "match_ignorecase (c # cs) [h] = (lower_char h = c \<and> match_ignorecase cs [])"
| "match_ignorecase (c # cs) (h # h2 # hs) =
     ((lower_char h = c \<and> match_ignorecase cs (h2 # hs))
      \<or> (c = CHR ''i'' \<and> h = CHR 0xC4 \<and> (h2 = CHR 0xB0 \<or> h2 = CHR 0xB1)
          \<and> match_ignorecase cs hs))"

fun search_ignorecase :: "string \<Rightarrow> string \<Rightarrow> bool" where
  "search_ignorecase pat [] = match_ignorecase pat []"
| "search_ignorecase pat (h # hs) = (match_ignorecase pat (h # hs) \<or> search_ignorecase pat hs)"

definition is_offwind :: "string \<Rightarrow> bool" where
  "is_offwind nm = search_ignorecase ''offwind'' nm"

text \<open>
  The accessor \<^verbatim>\<open>.str\<close> of line 81 exists on an index of strings only: on the range index of
  a generator table that never held a row it raises \<open>AttributeError\<close>.
\<close>

definition offwind_gens :: "network \<Rightarrow> error + string list" where
  "offwind_gens n =
     (if generators_has_str_index n then Inr (filter is_offwind (map gen_name (generators n)))
      else Inl AttributeError)"

text \<open>
  Modelled from the spec: \<^verbatim>\<open>network.remove("Generator", gen)\<close> is a method of the network
  library, which is not part of the sources. The specification says that it removes the
  generator entirely from the model: all associated attributes and any time-series columns
  keyed by that identifier.
\<close>

definition drop_column :: "string \<Rightarrow> timeseries \<Rightarrow> timeseries" where
  "drop_column nm df = df\<lparr>ts_columns := filter (\<lambda>c. c \<noteq> nm) (ts_columns df)\<rparr>"

text \<open>
  Modelled from the spec: the removal of one generator by \<^verbatim>\<open>network.remove\<close>, a library
  method whose code is not part of the sources. Its row leaves the generator table and its
  column leaves every time-series table of the generators.
\<close>

definition remove_generator :: "string \<Rightarrow> network \<Rightarrow> network" where
  "remove_generator nm n =
     n\<lparr>generators := filter (\<lambda>g. gen_name g \<noteq> nm) (generators n),
       generators_t := map (\<lambda>(a, df). (a, drop_column nm df)) (generators_t n)\<rparr>"

text \<open>Lines 80-95: the selection, then the generators are removed one by one.\<close>

definition remove_offshore_wind :: "network \<Rightarrow> error + network" where
  "remove_offshore_wind n =
     (case offwind_gens n of
        Inl e \<Rightarrow> Inl e
      | Inr gens \<Rightarrow> Inr (fold remove_generator gens n))"

text \<open>
  Lines 97-133, from the network as it was read from the file: the storage loop, the capacity
  fixer, the pruner.
\<close>

definition create_pypsa_network :: "network \<Rightarrow> error + network" where
  "create_pypsa_network loaded =
     remove_offshore_wind (fix_artificial_lines_reasonable (normalize_storage_units loaded))"

section \<open>Objective Reconstructor\<close>

text \<open>
  An attribute of a dictionary of tables (\<^verbatim>\<open>network.generators_t.p\<close>) fails with
  \<open>AttributeError\<close> when the entry is missing; \<^verbatim>\<open>hasattr\<close> asks whether it is there.
\<close>

definition get_table :: "(string \<times> timeseries) list \<Rightarrow> string \<Rightarrow> error + timeseries" where
  "get_table tabs a = (case map_of tabs a of None \<Rightarrow> Inl AttributeError | Some df \<Rightarrow> Inr df)"

definition hasattr :: "(string \<times> timeseries) list \<Rightarrow> string \<Rightarrow> bool" where
  "hasattr tabs a = (map_of tabs a \<noteq> None)"

text \<open>
  \<^verbatim>\<open>(costs * df.loc[snapshot]).sum()\<close>: the row of the snapshot (\<open>KeyError\<close> when the index
  lacks it), multiplied label by label with the cost column of the component table. A label
  that only one of the two carries gives NaN, which the sum skips.
\<close>

definition cost_at :: "(string \<times> real) list \<Rightarrow> timeseries \<Rightarrow> snapshot \<Rightarrow> error + real" where
  "cost_at costs df snapshot =
     (if snapshot \<in> set (ts_index df)
      then Inr (sum_list (map (\<lambda>(nm, c). c * ts_value df snapshot nm)
                  (filter (\<lambda>(nm, c). nm \<in> set (ts_columns df)) costs)))
      else Inl KeyError)"

text \<open>\<^verbatim>\<open>total_objective += (costs * table.loc[snapshot]).sum() * snapshot_weighting\<close>.\<close>

definition add_cost ::
  "(string \<times> timeseries) list \<Rightarrow> string \<Rightarrow> (string \<times> real) list \<Rightarrow> snapshot \<Rightarrow> real \<Rightarrow> real
     \<Rightarrow> error + real" where
  "add_cost tabs a costs snapshot snapshot_weighting tot =
     (case get_table tabs a of
        Inl e \<Rightarrow> Inl e
      | Inr df \<Rightarrow>
          (case cost_at costs df snapshot of
             Inl e \<Rightarrow> Inl e
           | Inr cost \<Rightarrow> Inr (tot + cost * snapshot_weighting)))"

text \<open>Lines 169-187: the storage block of the loop body.\<close>

definition storage_costs :: "network \<Rightarrow> snapshot \<Rightarrow> real \<Rightarrow> real \<Rightarrow> error + real" where
  "storage_costs n snapshot snapshot_weighting tot =
     (case add_cost (storage_units_t n) ''p_dispatch''
             (map (\<lambda>u. (storage_name u, marginal_cost u)) (storage_units n))
             snapshot snapshot_weighting tot of
        Inl e \<Rightarrow> Inl e
      | Inr tot1 \<Rightarrow>
          (case add_cost (storage_units_t n) ''p_store''
                  (map (\<lambda>u. (storage_name u, marginal_cost_storage u)) (storage_units n))
                  snapshot snapshot_weighting tot1 of
             Inl e \<Rightarrow> Inl e
           | Inr tot2 \<Rightarrow>
               if hasattr (storage_units_t n) ''spill''
               then add_cost (storage_units_t n) ''spill''
                      (map (\<lambda>u. (storage_name u, spill_cost u)) (storage_units n))
                      snapshot snapshot_weighting tot2
               else Inr tot2))"

text \<open>Lines 159-187: the body of the loop over the snapshots.\<close>

definition objective_step :: "network \<Rightarrow> snapshot \<Rightarrow> real \<Rightarrow> error + real" where
  "objective_step n snapshot tot =
     (case snapshot_weightings_objective n snapshot of
        None \<Rightarrow> Inl KeyError
      | Some snapshot_weighting \<Rightarrow>
          (case (if length (generators n) > 0
                 then add_cost (generators_t n) ''p''
                        (map (\<lambda>g. (gen_name g, gen_marginal_cost g)) (generators n))
                        snapshot snapshot_weighting tot
                 else Inr tot) of
             Inl e \<Rightarrow> Inl e
           | Inr tot1 \<Rightarrow>
               if length (storage_units n) > 0
               then storage_costs n snapshot snapshot_weighting tot1
               else Inr tot1))"

fun objective_loop :: "network \<Rightarrow> snapshot list \<Rightarrow> real \<Rightarrow> error + real" where
  "objective_loop n [] tot = Inr tot"
| "objective_loop n (snapshot # rest) tot =
     (case objective_step n snapshot tot of
        Inl e \<Rightarrow> Inl e
      | Inr tot1 \<Rightarrow> objective_loop n rest tot1)"

text \<open>Lines 157-187.\<close>

definition total_objective :: "network \<Rightarrow> error + real" where
  "total_objective n = objective_loop n (snapshots n) 0.0"

section \<open>Notions of the specification\<close>

text \<open>
  The peak demand of a bus, in the words of the specification: the maximum, over the full time
  horizon, of the load time series of every load attached to that bus; 0 if no load is
  attached or the bus is missing. A load has a time series when the load table
  \<^verbatim>\<open>loads_t.p_set\<close> has a column for it.
\<close>

definition load_series :: "network \<Rightarrow> load \<Rightarrow> real list" where
  "load_series n l =
     map (\<lambda>t. ts_value (loads_t_p_set n) t (load_name l)) (ts_index (loads_t_p_set n))"

definition attached_loads :: "network \<Rightarrow> string \<Rightarrow> load list" where
  "attached_loads n b =
     filter (\<lambda>l. bus l = b \<and> load_name l \<in> set (ts_columns (loads_t_p_set n))) (loads n)"

definition attached_values :: "network \<Rightarrow> string \<Rightarrow> real list" where
  "attached_values n b = concat (map (load_series n) (attached_loads n b))"

definition peakDemand :: "network \<Rightarrow> string \<Rightarrow> real" where
  "peakDemand n b =
     (if b \<in> set (buses n) \<and> attached_values n b \<noteq> [] then Max (set (attached_values n b))
      else 0)"

text \<open>The capacity that the specification requires for a line, from its two endpoints.\<close>

definition computed_capacity :: "network \<Rightarrow> line \<Rightarrow> real" where
  "computed_capacity n r = max (3.0 * max (peakDemand n (bus0 r)) (peakDemand n (bus1 r))) 1000"

text \<open>A line after the fix, and a line that only receives the new extendability column.\<close>

definition fixed_line :: "(string \<rightharpoonup> real) \<Rightarrow> line \<Rightarrow> line" where
  "fixed_line demand r =
     r\<lparr>s_nom := required_capacity (get_demand demand (bus0 r)) (get_demand demand (bus1 r)),
       s_nom_extendable := False\<rparr>"

definition new_column :: "bool \<Rightarrow> line \<Rightarrow> line" where
  "new_column has_col r = (if has_col then r else r\<lparr>s_nom_extendable := False\<rparr>)"

text \<open>\<open>needle\<close> is a substring of \<open>hay\<close>: some text before it and some text after it.\<close>

definition contains_substring :: "string \<Rightarrow> string \<Rightarrow> bool" where
  "contains_substring needle hay = (\<exists>before after. hay = before @ needle @ after)"

text \<open>A storage unit after the normalizer.\<close>

definition normalized :: "storage_unit \<Rightarrow> storage_unit" where
  "normalized u =
     u\<lparr>cyclic_state_of_charge := False, marginal_cost := 0.01, marginal_cost_storage := 0.01,
       spill_cost := 0.1, efficiency_store := 0.866025,
       max_hours := (if str_contains ''PHS'' (storage_name u) then 8.0
                     else if str_contains ''hydro'' (storage_name u) then 6.0
                     else max_hours u)\<rparr>"

text \<open>A time-series table without the columns of a list of identifiers.\<close>

definition drop_columns :: "string list \<Rightarrow> timeseries \<Rightarrow> timeseries" where
  "drop_columns names df = df\<lparr>ts_columns := filter (\<lambda>c. c \<notin> set names) (ts_columns df)\<rparr>"

text \<open>
  The total cost in the words of the specification. \<open>weight\<close> is the weight of a snapshot;
  \<open>dispatch\<close>, \<open>p_dispatch\<close>, \<open>p_store\<close> and \<open>spill\<close> are the cells of the result tables for
  a component and a snapshot. They are read where the entry exists, which \<open>populated\<close> below
  requires, and are 0 elsewhere.
\<close>

definition weight :: "network \<Rightarrow> snapshot \<Rightarrow> real" where
  "weight n s = (case snapshot_weightings_objective n s of None \<Rightarrow> 0 | Some w \<Rightarrow> w)"

definition series_value :: "(string \<times> timeseries) list \<Rightarrow> string \<Rightarrow> snapshot \<Rightarrow> string \<Rightarrow> real" where
  "series_value tabs a s nm = (case map_of tabs a of None \<Rightarrow> 0 | Some df \<Rightarrow> ts_value df s nm)"

definition dispatch :: "network \<Rightarrow> generator \<Rightarrow> snapshot \<Rightarrow> real" where
  "dispatch n g s = series_value (generators_t n) ''p'' s (gen_name g)"

definition p_dispatch :: "network \<Rightarrow> storage_unit \<Rightarrow> snapshot \<Rightarrow> real" where
  "p_dispatch n u s = series_value (storage_units_t n) ''p_dispatch'' s (storage_name u)"

definition p_store :: "network \<Rightarrow> storage_unit \<Rightarrow> snapshot \<Rightarrow> real" where
  "p_store n u s = series_value (storage_units_t n) ''p_store'' s (storage_name u)"

definition spill :: "network \<Rightarrow> storage_unit \<Rightarrow> snapshot \<Rightarrow> real" where
  "spill n u s = series_value (storage_units_t n) ''spill'' s (storage_name u)"

text \<open>
  The four sums of the formula for one snapshot, the total, and the total split into the part
  without spill and the spill part.
\<close>

definition generator_cost :: "network \<Rightarrow> snapshot \<Rightarrow> real" where
  "generator_cost n s = (\<Sum>g\<leftarrow>generators n. gen_marginal_cost g * dispatch n g s)"

definition dispatch_cost :: "network \<Rightarrow> snapshot \<Rightarrow> real" where
  "dispatch_cost n s = (\<Sum>u\<leftarrow>storage_units n. marginal_cost u * p_dispatch n u s)"

definition store_cost :: "network \<Rightarrow> snapshot \<Rightarrow> real" where
  "store_cost n s = (\<Sum>u\<leftarrow>storage_units n. marginal_cost_storage u * p_store n u s)"

definition spill_term :: "network \<Rightarrow> snapshot \<Rightarrow> real" where
  "spill_term n s = (\<Sum>u\<leftarrow>storage_units n. spill_cost u * spill n u s)"

definition objective_spec :: "network \<Rightarrow> real" where
  "objective_spec n =
     (\<Sum>s\<leftarrow>snapshots n. weight n s *
        (generator_cost n s + dispatch_cost n s + store_cost n s
         + (if hasattr (storage_units_t n) ''spill'' then spill_term n s else 0)))"

definition objective_without_spill :: "network \<Rightarrow> real" where
  "objective_without_spill n =
     (\<Sum>s\<leftarrow>snapshots n. weight n s * (generator_cost n s + dispatch_cost n s + store_cost n s))"

definition spill_total :: "network \<Rightarrow> real" where
  "spill_total n = (\<Sum>s\<leftarrow>snapshots n. weight n s * spill_term n s)"

text \<open>
  The time series have been populated by the optimization: every snapshot has a weight, and
  every result table that the reconstructor reads exists, with a row for every snapshot and a
  column for every component of its table.
\<close>

definition has_series :: "(string \<times> timeseries) list \<Rightarrow> string \<Rightarrow> snapshot list \<Rightarrow> string list \<Rightarrow> bool" where
  "has_series tabs a snaps names =
     (case map_of tabs a of
        None \<Rightarrow> False
      | Some df \<Rightarrow> set snaps \<subseteq> set (ts_index df) \<and> set names \<subseteq> set (ts_columns df))"

definition populated :: "network \<Rightarrow> bool" where
  "populated n =
     ((\<forall>s \<in> set (snapshots n). snapshot_weightings_objective n s \<noteq> None)
      \<and> (generators n \<noteq> [] \<longrightarrow>
           has_series (generators_t n) ''p'' (snapshots n) (map gen_name (generators n)))
      \<and> (storage_units n \<noteq> [] \<longrightarrow>
           has_series (storage_units_t n) ''p_dispatch'' (snapshots n)
             (map storage_name (storage_units n))
           \<and> has_series (storage_units_t n) ''p_store'' (snapshots n)
               (map storage_name (storage_units n))
           \<and> (hasattr (storage_units_t n) ''spill'' \<longrightarrow>
                 has_series (storage_units_t n) ''spill'' (snapshots n)
                   (map storage_name (storage_units n)))))"

section \<open>Example networks\<close>

text \<open>
  Scenario 1 of the specification: one line named \<^verbatim>\<open>A<->B\<close>, peak demand 200 at bus A and 500
  at bus B. Scenario 2: the same line with no demand at either end.
\<close>

definition scenario1 :: network where
  "scenario1 =
     \<lparr>buses = [''A'', ''B''],
      lines = [\<lparr>line_name = ''A<->B'', bus0 = ''A'', bus1 = ''B'', s_nom = 0,
                s_nom_extendable = True\<rparr>],
      lines_has_s_nom_extendable = True,
      loads = [\<lparr>load_name = ''la'', bus = ''A''\<rparr>, \<lparr>load_name = ''lb'', bus = ''B''\<rparr>],
      loads_t_p_set =
        \<lparr>ts_index = [0, 1], ts_columns = [''la'', ''lb''],
         ts_value = (\<lambda>t c. if c = ''la'' then (if t = 0 then 200 else 150)
                            else if c = ''lb'' then (if t = 0 then 100 else 500) else 0)\<rparr>,
      generators = [], generators_has_str_index = False, generators_t = [], storage_units = [], storage_units_t = [],
      snapshots = [0, 1], snapshot_weightings_objective = [0 \<mapsto> 1, 1 \<mapsto> 1]\<rparr>"

definition scenario2 :: network where
  "scenario2 =
     \<lparr>buses = [''A'', ''B''],
      lines = [\<lparr>line_name = ''A<->B'', bus0 = ''A'', bus1 = ''B'', s_nom = 0,
                s_nom_extendable = True\<rparr>],
      lines_has_s_nom_extendable = True,
      loads = [],
      loads_t_p_set = \<lparr>ts_index = [0, 1], ts_columns = [], ts_value = (\<lambda>t c. 0)\<rparr>,
      generators = [], generators_has_str_index = False, generators_t = [], storage_units = [], storage_units_t = [],
      snapshots = [0, 1], snapshot_weightings_objective = [0 \<mapsto> 1, 1 \<mapsto> 1]\<rparr>"

text \<open>
  Three buses with demand at A (peak 200) and B (peak 500), and a choice of line table:
  \<open>grid_example\<close> has a line with a keyword in its name and a large capacity, a line of
  capacity zero and an ordinary line; \<open>fallback_example\<close> has no keyword line and no
  extendability column; \<open>plain_example\<close> has neither a keyword line nor a line of capacity zero.
\<close>

definition example_with_lines :: "line list \<Rightarrow> bool \<Rightarrow> network" where
  "example_with_lines rows has_col =
     \<lparr>buses = [''A'', ''B'', ''C''],
      lines = rows,
      lines_has_s_nom_extendable = has_col,
      loads = [\<lparr>load_name = ''la'', bus = ''A''\<rparr>, \<lparr>load_name = ''lb'', bus = ''B''\<rparr>],
      loads_t_p_set =
        \<lparr>ts_index = [0, 1], ts_columns = [''la'', ''lb''],
         ts_value = (\<lambda>t c. if c = ''la'' then (if t = 0 then 200 else 150)
                            else if c = ''lb'' then (if t = 0 then 100 else 500) else 0)\<rparr>,
      generators = [], generators_has_str_index = False, generators_t = [], storage_units = [], storage_units_t = [],
      snapshots = [0, 1], snapshot_weightings_objective = [0 \<mapsto> 1, 1 \<mapsto> 1]\<rparr>"

definition grid_example :: network where
  "grid_example =
     example_with_lines
       [\<lparr>line_name = ''A<->B'', bus0 = ''A'', bus1 = ''B'', s_nom = 5000, s_nom_extendable = True\<rparr>,
        \<lparr>line_name = ''L2'', bus0 = ''B'', bus1 = ''C'', s_nom = 0, s_nom_extendable = True\<rparr>,
        \<lparr>line_name = ''L3'', bus0 = ''A'', bus1 = ''C'', s_nom = 700, s_nom_extendable = True\<rparr>]
       True"

definition fallback_example :: network where
  "fallback_example =
     example_with_lines
       [\<lparr>line_name = ''L2'', bus0 = ''B'', bus1 = ''C'', s_nom = 0, s_nom_extendable = True\<rparr>,
        \<lparr>line_name = ''L3'', bus0 = ''A'', bus1 = ''C'', s_nom = 700, s_nom_extendable = True\<rparr>]
       False"

definition plain_example :: network where
  "plain_example =
     example_with_lines
       [\<lparr>line_name = ''L3'', bus0 = ''A'', bus1 = ''C'', s_nom = 700, s_nom_extendable = True\<rparr>]
       True"

text \<open>
  Four storage units: one whose name has both \<^verbatim>\<open>PHS\<close> and \<^verbatim>\<open>hydro\<close>, one with \<^verbatim>\<open>hydro\<close>
  only, and two whose names differ from the categories in letter case.
\<close>

definition storage_example :: network where
  "storage_example =
     \<lparr>buses = [], lines = [], lines_has_s_nom_extendable = True, loads = [],
      loads_t_p_set = \<lparr>ts_index = [], ts_columns = [], ts_value = (\<lambda>t c. 0)\<rparr>,
      generators = [], generators_has_str_index = False, generators_t = [],
      storage_units =
        [\<lparr>storage_name = ''ZA0 0 PHS hydro'', cyclic_state_of_charge = True, marginal_cost = 5,
           marginal_cost_storage = 0, spill_cost = 0, efficiency_store = 1, max_hours = 100\<rparr>,
         \<lparr>storage_name = ''ZA0 1 hydro'', cyclic_state_of_charge = True, marginal_cost = 5,
           marginal_cost_storage = 0, spill_cost = 0, efficiency_store = 1, max_hours = 3000\<rparr>,
         \<lparr>storage_name = ''phs'', cyclic_state_of_charge = True, marginal_cost = 5,
           marginal_cost_storage = 0, spill_cost = 0, efficiency_store = 1, max_hours = 11\<rparr>,
         \<lparr>storage_name = ''Hydro'', cyclic_state_of_charge = False, marginal_cost = 5,
           marginal_cost_storage = 0, spill_cost = 0, efficiency_store = 1, max_hours = 12\<rparr>],
      storage_units_t = [], snapshots = [], snapshot_weightings_objective = Map.empty\<rparr>"

text \<open>
  A coal generator and an offshore wind generator, with dispatch \<open>[5, 7]\<close> for the coal
  generator, and snapshot weights 1 and 2.
\<close>

definition generator_example :: network where
  "generator_example =
     \<lparr>buses = [''ZA0 0''], lines = [], lines_has_s_nom_extendable = True, loads = [],
      loads_t_p_set = \<lparr>ts_index = [0, 1], ts_columns = [], ts_value = (\<lambda>t c. 0)\<rparr>,
      generators =
        [\<lparr>gen_name = ''ZA0 0 coal'', p_nom = 100, control = ''PQ'', carrier = ''coal'',
           gen_marginal_cost = 10\<rparr>,
         \<lparr>gen_name = ''ZA0 0 OffWind-ac'', p_nom = 0, control = ''PQ'', carrier = ''offwind-ac'',
           gen_marginal_cost = 0\<rparr>],
      generators_has_str_index = True,
      generators_t =
        [(''p'', \<lparr>ts_index = [0, 1], ts_columns = [''ZA0 0 coal'', ''ZA0 0 OffWind-ac''],
                  ts_value = (\<lambda>t c. if c = ''ZA0 0 coal'' then (if t = 0 then 5 else 7) else 0)\<rparr>),
         (''p_max_pu'', \<lparr>ts_index = [0, 1], ts_columns = [''ZA0 0 OffWind-ac''],
                  ts_value = (\<lambda>t c. 1)\<rparr>)],
      storage_units = [], storage_units_t = [],
      snapshots = [0, 1], snapshot_weightings_objective = [0 \<mapsto> 1, 1 \<mapsto> 2]\<rparr>"

text \<open>
  Scenario 3 of the specification: two snapshots with weights 1.0 and 2.0, one generator with
  marginal cost 10 and dispatch \<open>[5, 7]\<close>, no storage. Scenario 4: a storage unit whose result
  tables have no spill data.
\<close>

definition scenario3 :: network where
  "scenario3 =
     \<lparr>buses = [''A''], lines = [], lines_has_s_nom_extendable = True, loads = [],
      loads_t_p_set = \<lparr>ts_index = [0, 1], ts_columns = [], ts_value = (\<lambda>t c. 0)\<rparr>,
      generators =
        [\<lparr>gen_name = ''gen'', p_nom = 100, control = ''PQ'', carrier = ''coal'',
           gen_marginal_cost = 10\<rparr>],
      generators_has_str_index = True,
      generators_t =
        [(''p'', \<lparr>ts_index = [0, 1], ts_columns = [''gen''],
                  ts_value = (\<lambda>t c. if t = 0 then 5 else 7)\<rparr>)],
      storage_units = [], storage_units_t = [],
      snapshots = [0, 1], snapshot_weightings_objective = [0 \<mapsto> 1.0, 1 \<mapsto> 2.0]\<rparr>"

definition scenario4 :: network where
  "scenario4 =
     \<lparr>buses = [''A''], lines = [], lines_has_s_nom_extendable = True, loads = [],
      loads_t_p_set = \<lparr>ts_index = [0, 1], ts_columns = [], ts_value = (\<lambda>t c. 0)\<rparr>,
      generators = [], generators_has_str_index = False, generators_t = [],
      storage_units =
        [\<lparr>storage_name = ''ZA0 0 PHS'', cyclic_state_of_charge = False, marginal_cost = 0.01,
           marginal_cost_storage = 0.01, spill_cost = 0.1, efficiency_store = 0.866025,
           max_hours = 8\<rparr>],
      storage_units_t =
        [(''p_dispatch'', \<lparr>ts_index = [0, 1], ts_columns = [''ZA0 0 PHS''],
                           ts_value = (\<lambda>t c. if t = 0 then 3 else 4)\<rparr>),
         (''p_store'', \<lparr>ts_index = [0, 1], ts_columns = [''ZA0 0 PHS''],
                        ts_value = (\<lambda>t c. if t = 0 then 1 else 2)\<rparr>)],
      snapshots = [0, 1], snapshot_weightings_objective = [0 \<mapsto> 1.0, 1 \<mapsto> 2.0]\<rparr>"


section \<open>The loop of the Capacity Fixer in closed form\<close>

lemma loc_line_distinct:
  "distinct (map line_name rows) \<Longrightarrow> r \<in> set rows \<Longrightarrow> loc_line rows (line_name r) = Some r"
  unfolding loc_line_def
  by (induction rows) (auto simp: image_iff)

lemma fix_line_step:
  assumes d: "distinct (map line_name rows)" and r: "nm \<in> line_name ` set rows"
  shows "fix_line demand nm (rows, has_col) =
           (map (\<lambda>x. if line_name x = nm then fixed_line demand x else new_column has_col x) rows, True)"
proof -
  from r obtain r where rin: "r \<in> set rows" and nm: "nm = line_name r" by auto
  have loc: "loc_line rows nm = Some r" using loc_line_distinct [OF d rin] nm by simp
  have same: "\<And>x. x \<in> set rows \<Longrightarrow> line_name x = nm \<Longrightarrow> x = r"
    using d rin nm by (metis distinct_map inj_onD)
  show ?thesis
    using same
    by (auto simp: fix_line_def loc set_line_def fixed_line_def new_column_def Let_def)
qed

lemma fixed_line_simps [simp]:
  "line_name (fixed_line d x) = line_name x"
  "fixed_line d (fixed_line d x) = fixed_line d x"
  "fixed_line d (new_column h x) = fixed_line d x"
  "line_name (new_column h x) = line_name x"
  "new_column True x = x"
  by (simp_all add: fixed_line_def new_column_def)

lemma fold_fix_line_col:
  "distinct (map line_name rows) \<Longrightarrow> set names \<subseteq> line_name ` set rows \<Longrightarrow>
   fold (fix_line demand) names (rows, True) =
     (map (\<lambda>x. if line_name x \<in> set names then fixed_line demand x else x) rows, True)"
proof (induction names arbitrary: rows)
  case Nil
  then show ?case by simp
next
  case (Cons nm names)
  let ?g = "\<lambda>x. if line_name x = nm then fixed_line demand x else x"
  have step: "fix_line demand nm (rows, True) = (map ?g rows, True)"
    using fix_line_step [of rows nm demand True] Cons.prems by simp
  have nms: "map line_name (map ?g rows) = map line_name rows" by (simp add: comp_def)
  have "fold (fix_line demand) names (map ?g rows, True) =
     (map (\<lambda>x. if line_name x \<in> set names then fixed_line demand x else x) (map ?g rows), True)"
  proof (rule Cons.IH)
    show "distinct (map line_name (map ?g rows))" unfolding nms using Cons.prems by simp
    have "line_name ` set (map ?g rows) = set (map line_name (map ?g rows))" by (simp only: set_map)
    also have "\<dots> = line_name ` set rows" unfolding nms by simp
    finally show "set names \<subseteq> line_name ` set (map ?g rows)" using Cons.prems by simp
  qed
  then show ?case by (simp add: step comp_def) 
qed

lemma fold_fix_line:
  assumes "distinct (map line_name rows)" "set names \<subseteq> line_name ` set rows" "names \<noteq> []"
  shows "fold (fix_line demand) names (rows, has_col) =
     (map (\<lambda>x. if line_name x \<in> set names then fixed_line demand x else new_column has_col x) rows, True)"
proof -
  from assms(3) obtain nm rest where names: "names = nm # rest" by (cases names) auto
  let ?g = "\<lambda>x. if line_name x = nm then fixed_line demand x else new_column has_col x"
  have step: "fix_line demand nm (rows, has_col) = (map ?g rows, True)"
    using fix_line_step [of rows nm demand has_col] assms names by simp
  have nms: "map line_name (map ?g rows) = map line_name rows" by (simp add: comp_def)
  have "fold (fix_line demand) rest (map ?g rows, True) =
     (map (\<lambda>x. if line_name x \<in> set rest then fixed_line demand x else x) (map ?g rows), True)"
  proof (rule fold_fix_line_col)
    show "distinct (map line_name (map ?g rows))" unfolding nms using assms by simp
    have "line_name ` set (map ?g rows) = set (map line_name (map ?g rows))" by (simp only: set_map)
    also have "\<dots> = line_name ` set rows" unfolding nms by simp
    finally show "set rest \<subseteq> line_name ` set (map ?g rows)" using assms names by simp
  qed
  then show ?thesis by (simp add: names step comp_def)
qed

lemma artificial_lines_subset: "set (artificial_lines n) \<subseteq> line_name ` set (lines n)"
  by (auto simp: artificial_lines_def keyword_lines_def zero_capacity_lines_def)

lemma fix_closed_form:
  assumes "distinct (map line_name (lines n))"
  shows "fix_artificial_lines_reasonable n =
     (if artificial_lines n = [] then n
      else n\<lparr>lines := map (\<lambda>x. if line_name x \<in> set (artificial_lines n)
                               then fixed_line (bus_max_demand n) x
                               else new_column (lines_has_s_nom_extendable n) x) (lines n),
             lines_has_s_nom_extendable := True\<rparr>)"
  using fold_fix_line [OF assms artificial_lines_subset, of "bus_max_demand n" "lines_has_s_nom_extendable n"]
  by (simp add: fix_artificial_lines_reasonable_def)

section \<open>The peak demand computed by the code\<close>

lemma fold_upd_lookup:
  "fold (\<lambda>b m. m(b \<mapsto> f b)) bs m0 x = (if x \<in> set bs then Some (f x) else m0 x)"
  by (induction bs arbitrary: m0) auto

lemma get_demand_bus_max_demand:
  "get_demand (bus_max_demand n) b =
     (if b \<in> set (buses n) then bus_demand_loop n b (loads n) 0 else 0)"
  by (simp add: get_demand_def bus_max_demand_def fold_upd_lookup)

lemma fold_max_map: "fold (\<lambda>u m. max m (f u)) ts (a::real) = fold max (map f ts) a"
  by (induction ts arbitrary: a) (auto simp: max.commute)

lemma series_max_eq:
  "series_max df c =
     (if ts_index df = [] then None
      else Some (Max (set (map (\<lambda>t. ts_value df t c) (ts_index df)))))"
proof (cases "ts_index df")
  case Nil
  then show ?thesis by (simp add: series_max_def)
next
  case (Cons t ts)
  show ?thesis
    using Max.set_eq_fold [of "ts_value df t c" "map (\<lambda>u. ts_value df u c) ts"]
    by (simp add: series_max_def Cons fold_max_map)
qed

lemma py_max_series_max:
  "py_max d (series_max (loads_t_p_set n) (load_name l)) =
     (if load_series n l = [] then d else max d (Max (set (load_series n l))))"
  by (simp add: py_max_def series_max_eq load_series_def)

lemma bus_demand_loop_fold:
  "bus_demand_loop n b ls d =
     fold (\<lambda>vs m. if vs = [] then m else max m (Max (set vs)))
       (map (load_series n)
          (filter (\<lambda>l. bus l = b \<and> load_name l \<in> set (ts_columns (loads_t_p_set n))) ls)) d"
  by (induction ls arbitrary: d) (simp_all add: py_max_series_max)

lemma fold_max_concat:
  "fold (\<lambda>vs m. if vs = [] then m else max m (Max (set vs))) vss (d::real) =
     (if concat vss = [] then d else max d (Max (set (concat vss))))"
proof (induction vss arbitrary: d)
  case Nil
  then show ?case by simp
next
  case (Cons vs vss)
  show ?case
  proof (cases "vs = []")
    case True
    then show ?thesis by (simp add: Cons.IH del: concat_eq_Nil_conv set_concat)
  next
    case vs: False
    show ?thesis
    proof (cases "concat vss = []")
      case True
      then show ?thesis using vs by (simp add: Cons.IH del: concat_eq_Nil_conv set_concat)
    next
      case False
      then have "Max (set (vs @ concat vss)) = max (Max (set vs)) (Max (set (concat vss)))"
        using vs by (simp add: Max_Un del: set_concat concat_eq_Nil_conv)
      then show ?thesis
        using vs False by (simp add: Cons.IH max.assoc del: concat_eq_Nil_conv set_concat set_append)
    qed
  qed
qed

lemma bus_demand_loop_eq:
  "bus_demand_loop n b (loads n) 0 =
     (if attached_values n b = [] then 0 else max 0 (Max (set (attached_values n b))))"
  unfolding bus_demand_loop_fold fold_max_concat attached_values_def attached_loads_def ..

lemma get_demand_peakDemand:
  "get_demand (bus_max_demand n) b = max 0 (peakDemand n b)"
  by (simp add: get_demand_bus_max_demand bus_demand_loop_eq peakDemand_def)

lemma required_capacity_peakDemand:
  "required_capacity (get_demand (bus_max_demand n) a) (get_demand (bus_max_demand n) b) =
     max (3.0 * max (peakDemand n a) (peakDemand n b)) 1000"
  by (simp add: get_demand_peakDemand required_capacity_def safety_factor_def max_def)

section \<open>Frame and idempotence of the loop\<close>

lemma bus_demand_loop_cong:
  "loads_t_p_set m = loads_t_p_set n \<Longrightarrow> bus_demand_loop m b ls d = bus_demand_loop n b ls d"
  by (induction ls arbitrary: d) simp_all

lemma bus_max_demand_cong:
  "buses m = buses n \<Longrightarrow> loads m = loads n \<Longrightarrow> loads_t_p_set m = loads_t_p_set n \<Longrightarrow>
   bus_max_demand m = bus_max_demand n"
  by (simp add: bus_max_demand_def bus_demand_loop_cong [of m n])

lemma artificial_lines_cong: "lines m = lines n \<Longrightarrow> artificial_lines m = artificial_lines n"
  by (simp add: artificial_lines_def keyword_lines_def zero_capacity_lines_def)

lemma fix_no_lines: "artificial_lines n = [] \<Longrightarrow> fix_artificial_lines_reasonable n = n"
  by (simp add: fix_artificial_lines_reasonable_def)

lemma fix_frame:
  "buses (fix_artificial_lines_reasonable n) = buses n"
  "loads (fix_artificial_lines_reasonable n) = loads n"
  "loads_t_p_set (fix_artificial_lines_reasonable n) = loads_t_p_set n"
  "generators (fix_artificial_lines_reasonable n) = generators n"
  "generators_t (fix_artificial_lines_reasonable n) = generators_t n"
  "storage_units (fix_artificial_lines_reasonable n) = storage_units n"
  "storage_units_t (fix_artificial_lines_reasonable n) = storage_units_t n"
  "snapshots (fix_artificial_lines_reasonable n) = snapshots n"
  "snapshot_weightings_objective (fix_artificial_lines_reasonable n) =
     snapshot_weightings_objective n"
  by (simp_all add: fix_artificial_lines_reasonable_def split: prod.split)

lemma required_capacity_ge: "1000 \<le> required_capacity a b"
  by (simp add: required_capacity_def)

lemma s_nom_fixed_line_nonzero: "s_nom (fixed_line d x) \<noteq> 0"
  using required_capacity_ge [of "get_demand d (bus0 x)" "get_demand d (bus1 x)"]
  by (simp add: fixed_line_def)

lemma fixed_line_fields [simp]:
  "bus0 (fixed_line d x) = bus0 x" "bus1 (fixed_line d x) = bus1 x"
  "bus0 (new_column h x) = bus0 x" "bus1 (new_column h x) = bus1 x"
  "s_nom (new_column h x) = s_nom x"
  by (simp_all add: fixed_line_def new_column_def)

lemma fix_idem:
  assumes d: "distinct (map line_name (lines n))"
  shows "fix_artificial_lines_reasonable (fix_artificial_lines_reasonable n) =
     fix_artificial_lines_reasonable n"
proof (cases "artificial_lines n = []")
  case True
  then show ?thesis by (simp add: fix_no_lines)
next
  case ne: False
  let ?A = "set (artificial_lines n)"
  let ?g = "\<lambda>x. if line_name x \<in> ?A then fixed_line (bus_max_demand n) x
                 else new_column (lines_has_s_nom_extendable n) x"
  let ?n' = "fix_artificial_lines_reasonable n"
  have n': "?n' = n\<lparr>lines := map ?g (lines n), lines_has_s_nom_extendable := True\<rparr>"
    using ne by (simp add: fix_closed_form [OF d])
  have lines_n': "lines ?n' = map ?g (lines n)" by (simp add: n')
  have names: "map line_name (lines ?n') = map line_name (lines n)"
    by (simp add: n' comp_def)
  have d': "distinct (map line_name (lines ?n'))" unfolding names by (rule d)
  have dem: "bus_max_demand ?n' = bus_max_demand n"
    by (rule bus_max_demand_cong) (simp_all add: fix_frame)
  have kw: "keyword_lines ?n' = keyword_lines n"
    by (simp add: keyword_lines_def names)
  have has: "lines_has_s_nom_extendable ?n'" by (simp add: n')
  show ?thesis
  proof (cases "keyword_lines n = []")
    case False
    then have A: "artificial_lines ?n' = artificial_lines n"
      by (simp add: artificial_lines_def kw)
    have "map (\<lambda>x. if line_name x \<in> ?A then fixed_line (bus_max_demand n) x
                 else new_column True x) (lines ?n') = lines ?n'"
      by (simp add: n' comp_def)
    then have "fix_artificial_lines_reasonable ?n' = ?n'\<lparr>lines_has_s_nom_extendable := True\<rparr>"
      using ne has by (simp add: fix_closed_form [OF d'] A dem cong: if_cong)
    also have "\<dots> = ?n'" using has by simp
    finally show ?thesis .
  next
    case True
    then have A: "artificial_lines n = zero_capacity_lines n"
      by (simp add: artificial_lines_def)
    have "\<And>x. x \<in> set (lines n) \<Longrightarrow> s_nom (?g x) \<noteq> 0"
    proof -
      fix x assume x: "x \<in> set (lines n)"
      show "s_nom (?g x) \<noteq> 0"
      proof (cases "line_name x \<in> ?A")
        case True
        then show ?thesis by (simp add: s_nom_fixed_line_nonzero)
      next
        case False
        then have "s_nom x \<noteq> 0" using x by (auto simp: A zero_capacity_lines_def)
        then show ?thesis using False by simp
      qed
    qed
    then have "filter (\<lambda>r. s_nom r = 0) (map ?g (lines n)) = []"
      unfolding filter_empty_conv set_map by blast
    then have "filter (\<lambda>r. s_nom r = 0) (lines ?n') = []"
      using lines_n' by simp
    then have "zero_capacity_lines ?n' = []" by (simp add: zero_capacity_lines_def)
    then have "artificial_lines ?n' = []" using True by (simp add: artificial_lines_def kw)
    then show ?thesis by (rule fix_no_lines)
  qed
qed

lemma artificial_lines_fix:
  assumes d: "distinct (map line_name (lines n))"
  shows "artificial_lines (fix_artificial_lines_reasonable n) =
     (if keyword_lines n = [] then [] else keyword_lines n)"
proof (cases "artificial_lines n = []")
  case True
  then show ?thesis by (auto simp: fix_no_lines artificial_lines_def split: if_splits)
next
  case ne: False
  let ?A = "set (artificial_lines n)"
  let ?g = "\<lambda>x. if line_name x \<in> ?A then fixed_line (bus_max_demand n) x
                 else new_column (lines_has_s_nom_extendable n) x"
  let ?n' = "fix_artificial_lines_reasonable n"
  have lines_n': "lines ?n' = map ?g (lines n)"
    using ne by (simp add: fix_closed_form [OF d])
  have names: "map line_name (lines ?n') = map line_name (lines n)"
    by (simp add: lines_n' comp_def)
  have kw: "keyword_lines ?n' = keyword_lines n"
    by (simp add: keyword_lines_def names)
  show ?thesis
  proof (cases "keyword_lines n = []")
    case False
    then show ?thesis by (simp add: artificial_lines_def kw)
  next
    case True
    then have A: "artificial_lines n = zero_capacity_lines n"
      by (simp add: artificial_lines_def)
    have "\<And>x. x \<in> set (lines n) \<Longrightarrow> s_nom (?g x) \<noteq> 0"
    proof -
      fix x assume x: "x \<in> set (lines n)"
      show "s_nom (?g x) \<noteq> 0"
      proof (cases "line_name x \<in> ?A")
        case True
        then show ?thesis by (simp add: s_nom_fixed_line_nonzero)
      next
        case False
        then have "s_nom x \<noteq> 0" using x by (auto simp: A zero_capacity_lines_def)
        then show ?thesis using False by simp
      qed
    qed
    then have "filter (\<lambda>r. s_nom r = 0) (map ?g (lines n)) = []"
      unfolding filter_empty_conv set_map by blast
    then have "zero_capacity_lines ?n' = []" by (simp add: zero_capacity_lines_def lines_n')
    then show ?thesis using True by (simp add: artificial_lines_def kw)
  qed
qed

lemma artificial_lines_fix_subset:
  assumes d: "distinct (map line_name (lines n))"
  shows "set (artificial_lines (fix_artificial_lines_reasonable n)) \<subseteq> set (artificial_lines n)"
  unfolding artificial_lines_fix [OF d] by (simp add: artificial_lines_def)

section \<open>Claims about the Capacity Fixer\<close>

lemma lines_fix_nth:
  assumes "distinct (map line_name (lines n))" "i < length (lines n)"
    "line_name (lines n ! i) \<in> set (artificial_lines n)"
  shows "lines (fix_artificial_lines_reasonable n) ! i = fixed_line (bus_max_demand n) (lines n ! i)"
    and "lines_has_s_nom_extendable (fix_artificial_lines_reasonable n)"
  using assms by (auto simp: fix_closed_form)

lemma scenario1_peak: "peakDemand scenario1 ''A'' = 200" "peakDemand scenario1 ''B'' = 500"
  by (simp_all add: peakDemand_def scenario1_def attached_values_def attached_loads_def
      load_series_def)

lemma scenario1_lines:
  "distinct (map line_name (lines scenario1))"
  "0 < length (lines scenario1)"
  "lines scenario1 ! 0 =
     \<lparr>line_name = ''A<->B'', bus0 = ''A'', bus1 = ''B'', s_nom = 0, s_nom_extendable = True\<rparr>"
  "artificial_lines scenario1 = [''A<->B'']"
  by (simp_all add: scenario1_def artificial_lines_def keyword_lines_def is_keyword_line_def
      line_keywords_def lower_def)

lemma scenario2_peak: "peakDemand scenario2 ''A'' = 0" "peakDemand scenario2 ''B'' = 0"
  by (simp_all add: peakDemand_def scenario2_def attached_values_def attached_loads_def)

lemma scenario2_lines:
  "distinct (map line_name (lines scenario2))"
  "0 < length (lines scenario2)"
  "lines scenario2 ! 0 =
     \<lparr>line_name = ''A<->B'', bus0 = ''A'', bus1 = ''B'', s_nom = 0, s_nom_extendable = True\<rparr>"
  "artificial_lines scenario2 = [''A<->B'']"
  by (simp_all add: scenario2_def artificial_lines_def keyword_lines_def is_keyword_line_def
      line_keywords_def lower_def)

text \<open>
  Claim C1. Every line that the fixer detects as synthetic leaves the fixer with the capacity
  \<open>max (3.0 \<times> max (peakDemand bus0) (peakDemand bus1)) 1000\<close>, where \<open>peakDemand\<close> is the peak
  demand in the words of the specification, and with its extendability flag false (the flag
  column exists afterwards). So the capacity is at least 1000 and at least three times the
  peak demand of either endpoint, and it is exactly 1000 when both endpoints have peak
  demand 0. The line is addressed by its position \<open>i\<close> in the line table, which the fixer
  keeps.
\<close>

theorem capacity_fixer_required_capacity:
  assumes "distinct (map line_name (lines n))"
    and "i < length (lines n)"
    and "line_name (lines n ! i) \<in> set (artificial_lines n)"
  shows "s_nom (lines (fix_artificial_lines_reasonable n) ! i) =
           max (3.0 * max (peakDemand n (bus0 (lines n ! i))) (peakDemand n (bus1 (lines n ! i))))
             1000
         \<and> lines_has_s_nom_extendable (fix_artificial_lines_reasonable n)
         \<and> \<not> s_nom_extendable (lines (fix_artificial_lines_reasonable n) ! i)
         \<and> line_name (lines (fix_artificial_lines_reasonable n) ! i) = line_name (lines n ! i)
         \<and> 1000 \<le> s_nom (lines (fix_artificial_lines_reasonable n) ! i)
         \<and> 3 * peakDemand n (bus0 (lines n ! i))
              \<le> s_nom (lines (fix_artificial_lines_reasonable n) ! i)
         \<and> 3 * peakDemand n (bus1 (lines n ! i))
              \<le> s_nom (lines (fix_artificial_lines_reasonable n) ! i)
         \<and> (peakDemand n (bus0 (lines n ! i)) = 0 \<and> peakDemand n (bus1 (lines n ! i)) = 0
              \<longrightarrow> s_nom (lines (fix_artificial_lines_reasonable n) ! i) = 1000)"
proof -
  let ?r = "lines n ! i"
  have row: "lines (fix_artificial_lines_reasonable n) ! i = fixed_line (bus_max_demand n) ?r"
    using lines_fix_nth(1) [OF assms] .
  have cap: "s_nom (fixed_line (bus_max_demand n) ?r) =
      max (3.0 * max (peakDemand n (bus0 ?r)) (peakDemand n (bus1 ?r))) 1000"
    by (simp add: fixed_line_def required_capacity_peakDemand)
  show ?thesis
    unfolding row cap using lines_fix_nth(2) [OF assms]
    by (auto simp: fixed_line_def)
qed

theorem capacity_fixer_required_capacity_witness:
  "distinct (map line_name (lines scenario1)) \<and> 0 < length (lines scenario1)
   \<and> line_name (lines scenario1 ! 0) \<in> set (artificial_lines scenario1)
   \<and> s_nom (lines (fix_artificial_lines_reasonable scenario1) ! 0) = 1500
   \<and> \<not> s_nom_extendable (lines (fix_artificial_lines_reasonable scenario1) ! 0)
   \<and> distinct (map line_name (lines scenario2)) \<and> 0 < length (lines scenario2)
   \<and> line_name (lines scenario2 ! 0) \<in> set (artificial_lines scenario2)
   \<and> s_nom (lines (fix_artificial_lines_reasonable scenario2) ! 0) = 1000"
proof -
  have h1: "distinct (map line_name (lines scenario1))" by (rule scenario1_lines)
  have h2: "0 < length (lines scenario1)" by (rule scenario1_lines)
  have h3: "line_name (lines scenario1 ! 0) \<in> set (artificial_lines scenario1)"
    by (simp add: scenario1_lines)
  have k1: "distinct (map line_name (lines scenario2))" by (rule scenario2_lines)
  have k2: "0 < length (lines scenario2)" by (rule scenario2_lines)
  have k3: "line_name (lines scenario2 ! 0) \<in> set (artificial_lines scenario2)"
    by (simp add: scenario2_lines)
  show ?thesis
    using h1 h2 h3 capacity_fixer_required_capacity [OF h1 h2 h3]
      k1 k2 k3 capacity_fixer_required_capacity [OF k1 k2 k3]
    by (simp add: scenario1_lines scenario1_peak scenario2_lines scenario2_peak)
qed

lemmas line_detection_defs =
  artificial_lines_def keyword_lines_def zero_capacity_lines_def is_keyword_line_def
  line_keywords_def lower_def

lemma example_peak:
  "peakDemand (example_with_lines rows c) ''A'' = 200"
  "peakDemand (example_with_lines rows c) ''B'' = 500"
  "peakDemand (example_with_lines rows c) ''C'' = 0"
  by (simp_all add: peakDemand_def example_with_lines_def attached_values_def attached_loads_def
      load_series_def)

lemma example_lines [simp]:
  "lines (example_with_lines rows c) = rows"
  "lines_has_s_nom_extendable (example_with_lines rows c) = c"
  by (simp_all add: example_with_lines_def)

lemma grid_example_detect:
  "keyword_lines grid_example = [''A<->B'']"
  "zero_capacity_lines grid_example = [''L2'']"
  "artificial_lines grid_example = [''A<->B'']"
  by (simp_all add: grid_example_def line_detection_defs)

lemma fallback_example_detect:
  "keyword_lines fallback_example = []"
  "zero_capacity_lines fallback_example = [''L2'']"
  "artificial_lines fallback_example = [''L2'']"
  by (simp_all add: fallback_example_def line_detection_defs)

lemma plain_example_detect:
  "keyword_lines plain_example = []"
  "zero_capacity_lines plain_example = []"
  "artificial_lines plain_example = []"
  by (simp_all add: plain_example_def line_detection_defs)

lemma s_nom_fixed_line:
  "s_nom (fixed_line (bus_max_demand n) r) = computed_capacity n r"
  by (simp add: fixed_line_def required_capacity_peakDemand computed_capacity_def)

text \<open>
  Claim C6. Detection has two stages with a priority. When some line identifier contains a
  keyword, the detected lines are exactly the keyword matches (a line of capacity zero without
  a keyword is then not detected). Only when no identifier contains a keyword are the detected
  lines those whose capacity is exactly zero. When that finds none either, the fixer returns
  the network unchanged.
\<close>

theorem synthetic_line_detection_two_stage:
  "(keyword_lines n \<noteq> [] \<longrightarrow> artificial_lines n = keyword_lines n)
   \<and> (keyword_lines n = [] \<longrightarrow> artificial_lines n = zero_capacity_lines n)
   \<and> (artificial_lines n = [] \<longrightarrow> fix_artificial_lines_reasonable n = n)
   \<and> set (keyword_lines n) = {line_name r | r. r \<in> set (lines n) \<and> is_keyword_line (line_name r)}
   \<and> set (zero_capacity_lines n) = {line_name r | r. r \<in> set (lines n) \<and> s_nom r = 0}"
  by (auto simp: artificial_lines_def fix_no_lines keyword_lines_def zero_capacity_lines_def)

theorem synthetic_line_detection_two_stage_witness:
  "keyword_lines grid_example \<noteq> [] \<and> artificial_lines grid_example = [''A<->B'']
   \<and> keyword_lines fallback_example = [] \<and> artificial_lines fallback_example = [''L2'']
   \<and> artificial_lines plain_example = []
   \<and> fix_artificial_lines_reasonable plain_example = plain_example"
  using synthetic_line_detection_two_stage [of grid_example]
    synthetic_line_detection_two_stage [of fallback_example]
    synthetic_line_detection_two_stage [of plain_example]
  by (simp add: grid_example_detect(1,2) fallback_example_detect(1,2) plain_example_detect(1,2))

text \<open>
  Claim C5. The fixer is idempotent: a second run returns the network of the first run, line
  capacities and extendability flags included. Every line that the second run detects was
  detected by the first run, so no line matches anew after its capacity changed: the second run
  detects the keyword lines again when there are some, and no line at all otherwise (the lines
  of capacity zero have a capacity of at least 1000 by then, and the second run returns its
  input). The line table that the fixer returns depends on the rest of the network only
  through the peak demands: two networks with the same line table and the same peak demands
  get the same result.
\<close>

theorem capacity_fixer_idempotent:
  assumes "distinct (map line_name (lines n))"
  shows "fix_artificial_lines_reasonable (fix_artificial_lines_reasonable n) =
           fix_artificial_lines_reasonable n
         \<and> set (artificial_lines (fix_artificial_lines_reasonable n)) \<subseteq> set (artificial_lines n)
         \<and> artificial_lines (fix_artificial_lines_reasonable n) =
             (if keyword_lines n = [] then [] else keyword_lines n)
         \<and> (\<forall>m. lines m = lines n
                \<and> lines_has_s_nom_extendable m = lines_has_s_nom_extendable n
                \<and> (\<forall>b. peakDemand m b = peakDemand n b)
              \<longrightarrow> lines (fix_artificial_lines_reasonable m) = lines (fix_artificial_lines_reasonable n)
                  \<and> lines_has_s_nom_extendable (fix_artificial_lines_reasonable m) =
                      lines_has_s_nom_extendable (fix_artificial_lines_reasonable n))"
proof (intro conjI allI impI)
  show "fix_artificial_lines_reasonable (fix_artificial_lines_reasonable n) =
           fix_artificial_lines_reasonable n"
    by (rule fix_idem [OF assms])
next
  show "set (artificial_lines (fix_artificial_lines_reasonable n)) \<subseteq> set (artificial_lines n)"
    by (rule artificial_lines_fix_subset [OF assms])
next
  show "artificial_lines (fix_artificial_lines_reasonable n) =
      (if keyword_lines n = [] then [] else keyword_lines n)"
    by (rule artificial_lines_fix [OF assms])
next
  fix m
  assume m: "lines m = lines n
                \<and> lines_has_s_nom_extendable m = lines_has_s_nom_extendable n
                \<and> (\<forall>b. peakDemand m b = peakDemand n b)"
  then have dm: "distinct (map line_name (lines m))" using assms by simp
  have A: "artificial_lines m = artificial_lines n"
    using m by (intro artificial_lines_cong) simp
  have fx: "\<And>r. r \<in> set (lines n) \<Longrightarrow> fixed_line (bus_max_demand m) r = fixed_line (bus_max_demand n) r"
    using m by (simp add: fixed_line_def required_capacity_peakDemand)
  have hm: "lines_has_s_nom_extendable m = lines_has_s_nom_extendable n" and lm: "lines m = lines n"
    using m by simp_all
  let ?gm = "\<lambda>x. if line_name x \<in> set (artificial_lines n) then fixed_line (bus_max_demand m) x
                  else new_column (lines_has_s_nom_extendable n) x"
  let ?gn = "\<lambda>x. if line_name x \<in> set (artificial_lines n) then fixed_line (bus_max_demand n) x
                  else new_column (lines_has_s_nom_extendable n) x"
  have maps: "map ?gm (lines n) = map ?gn (lines n)"
    by (rule map_cong [OF refl]) (simp add: fx)
  have fm: "fix_artificial_lines_reasonable m =
      (if artificial_lines n = [] then m
       else m\<lparr>lines := map ?gm (lines n), lines_has_s_nom_extendable := True\<rparr>)"
    using fix_closed_form [OF dm] unfolding A hm lm .
  have fn: "fix_artificial_lines_reasonable n =
      (if artificial_lines n = [] then n
       else n\<lparr>lines := map ?gn (lines n), lines_has_s_nom_extendable := True\<rparr>)"
    by (rule fix_closed_form [OF assms])
  show "lines (fix_artificial_lines_reasonable m) = lines (fix_artificial_lines_reasonable n)"
    unfolding fm fn maps using lm by (cases "artificial_lines n = []") simp_all
  show "lines_has_s_nom_extendable (fix_artificial_lines_reasonable m) =
          lines_has_s_nom_extendable (fix_artificial_lines_reasonable n)"
    unfolding fm fn using hm by (cases "artificial_lines n = []") simp_all
qed

lemma example_distinct:
  "distinct (map line_name (lines grid_example))"
  "distinct (map line_name (lines fallback_example))"
  "distinct (map line_name (lines plain_example))"
  by (simp_all add: grid_example_def fallback_example_def plain_example_def)

lemma fallback_example_fixed:
  "lines (fix_artificial_lines_reasonable fallback_example) =
     [\<lparr>line_name = ''L2'', bus0 = ''B'', bus1 = ''C'', s_nom = 1500, s_nom_extendable = False\<rparr>,
      \<lparr>line_name = ''L3'', bus0 = ''A'', bus1 = ''C'', s_nom = 700, s_nom_extendable = False\<rparr>]"
  by (simp add: fix_closed_form [OF example_distinct(2)] fallback_example_detect
      cong: if_cong)
     (simp add: fallback_example_def example_peak fixed_line_def required_capacity_peakDemand
        new_column_def)

lemma grid_example_fixed:
  "lines (fix_artificial_lines_reasonable grid_example) =
     [\<lparr>line_name = ''A<->B'', bus0 = ''A'', bus1 = ''B'', s_nom = 1500, s_nom_extendable = False\<rparr>,
      \<lparr>line_name = ''L2'', bus0 = ''B'', bus1 = ''C'', s_nom = 0, s_nom_extendable = True\<rparr>,
      \<lparr>line_name = ''L3'', bus0 = ''A'', bus1 = ''C'', s_nom = 700, s_nom_extendable = True\<rparr>]"
  by (simp add: fix_closed_form [OF example_distinct(1)] grid_example_detect
      cong: if_cong)
     (simp add: grid_example_def example_peak fixed_line_def required_capacity_peakDemand
        new_column_def)

theorem capacity_fixer_idempotent_witness:
  "distinct (map line_name (lines fallback_example))
   \<and> fix_artificial_lines_reasonable (fix_artificial_lines_reasonable fallback_example) =
       fix_artificial_lines_reasonable fallback_example
   \<and> map s_nom (lines (fix_artificial_lines_reasonable
         (fix_artificial_lines_reasonable fallback_example))) = [1500, 700]"
  using capacity_fixer_idempotent [OF example_distinct(2)] example_distinct(2)
  by (simp add: fallback_example_fixed)

text \<open>
  Claim C9. The fixer overwrites the capacity of a detected line with the computed value
  whatever the capacity was before. For some network, a line with a keyword in its name whose
  capacity exceeds the computed value leaves the fixer with a smaller capacity: in
  \<open>grid_example\<close> the line \<^verbatim>\<open>A<->B\<close> goes from 5000 to 1500.
\<close>

theorem capacity_fixer_overwrites_larger_capacity:
  "(distinct (map line_name (lines n)) \<and> i < length (lines n)
      \<and> line_name (lines n ! i) \<in> set (artificial_lines n)
    \<longrightarrow> s_nom (lines (fix_artificial_lines_reasonable n) ! i) = computed_capacity n (lines n ! i))
   \<and> (\<exists>m j. distinct (map line_name (lines m)) \<and> j < length (lines m)
         \<and> is_keyword_line (line_name (lines m ! j))
         \<and> line_name (lines m ! j) \<in> set (artificial_lines m)
         \<and> computed_capacity m (lines m ! j) < s_nom (lines m ! j)
         \<and> s_nom (lines (fix_artificial_lines_reasonable m) ! j) = computed_capacity m (lines m ! j)
         \<and> s_nom (lines (fix_artificial_lines_reasonable m) ! j) < s_nom (lines m ! j))"
proof (intro conjI impI)
  assume "distinct (map line_name (lines n)) \<and> i < length (lines n)
      \<and> line_name (lines n ! i) \<in> set (artificial_lines n)"
  then show "s_nom (lines (fix_artificial_lines_reasonable n) ! i) =
      computed_capacity n (lines n ! i)"
    by (simp add: lines_fix_nth(1) s_nom_fixed_line)
next
  have row: "lines grid_example ! 0 =
      \<lparr>line_name = ''A<->B'', bus0 = ''A'', bus1 = ''B'', s_nom = 5000, s_nom_extendable = True\<rparr>"
    by (simp add: grid_example_def)
  have cap: "computed_capacity grid_example (lines grid_example ! 0) = 1500"
    unfolding row by (simp add: computed_capacity_def grid_example_def example_peak)
  have kw: "is_keyword_line ''A<->B''"
    by (simp add: is_keyword_line_def line_keywords_def lower_def)
  have "distinct (map line_name (lines grid_example)) \<and> 0 < length (lines grid_example)
         \<and> is_keyword_line (line_name (lines grid_example ! 0))
         \<and> line_name (lines grid_example ! 0) \<in> set (artificial_lines grid_example)
         \<and> computed_capacity grid_example (lines grid_example ! 0) < s_nom (lines grid_example ! 0)
         \<and> s_nom (lines (fix_artificial_lines_reasonable grid_example) ! 0) =
             computed_capacity grid_example (lines grid_example ! 0)
         \<and> s_nom (lines (fix_artificial_lines_reasonable grid_example) ! 0)
             < s_nom (lines grid_example ! 0)"
    unfolding cap grid_example_fixed
    by (simp add: example_distinct grid_example_detect row kw) (simp add: grid_example_def)
  then show "\<exists>m j. distinct (map line_name (lines m)) \<and> j < length (lines m)
         \<and> is_keyword_line (line_name (lines m ! j))
         \<and> line_name (lines m ! j) \<in> set (artificial_lines m)
         \<and> computed_capacity m (lines m ! j) < s_nom (lines m ! j)
         \<and> s_nom (lines (fix_artificial_lines_reasonable m) ! j) = computed_capacity m (lines m ! j)
         \<and> s_nom (lines (fix_artificial_lines_reasonable m) ! j) < s_nom (lines m ! j)"
    by blast
qed

theorem capacity_fixer_overwrites_larger_capacity_witness:
  "distinct (map line_name (lines grid_example)) \<and> 0 < length (lines grid_example)
   \<and> line_name (lines grid_example ! 0) \<in> set (artificial_lines grid_example)
   \<and> s_nom (lines grid_example ! 0) = 5000
   \<and> s_nom (lines (fix_artificial_lines_reasonable grid_example) ! 0) = 1500"
proof -
  have row: "lines grid_example ! 0 =
      \<lparr>line_name = ''A<->B'', bus0 = ''A'', bus1 = ''B'', s_nom = 5000, s_nom_extendable = True\<rparr>"
    by (simp add: grid_example_def)
  have cap: "computed_capacity grid_example (lines grid_example ! 0) = 1500"
    unfolding row by (simp add: computed_capacity_def grid_example_def example_peak)
  have h: "distinct (map line_name (lines grid_example)) \<and> 0 < length (lines grid_example)
      \<and> line_name (lines grid_example ! 0) \<in> set (artificial_lines grid_example)"
    by (simp add: example_distinct grid_example_detect row) (simp add: grid_example_def)
  show ?thesis
    using h capacity_fixer_overwrites_larger_capacity [of grid_example 0]
    by (simp add: cap [unfolded row] row)
qed

text \<open>
  Claim C10. The fixer changes nothing but the capacity and the extendability flag of the
  detected lines. The tables of buses, loads, generators and storage units, the time series and
  the snapshots are returned as they were; every line keeps its position, its name and its two
  endpoints. A line that is not detected keeps its capacity; it keeps its extendability flag
  when the flag column existed, and gets the flag false when the fixer creates the column,
  which happens exactly when the column was missing and some line is detected.
\<close>

theorem capacity_fixer_frame:
  assumes "distinct (map line_name (lines n))"
  shows "buses (fix_artificial_lines_reasonable n) = buses n
    \<and> loads (fix_artificial_lines_reasonable n) = loads n
    \<and> loads_t_p_set (fix_artificial_lines_reasonable n) = loads_t_p_set n
    \<and> generators (fix_artificial_lines_reasonable n) = generators n
    \<and> generators_t (fix_artificial_lines_reasonable n) = generators_t n
    \<and> storage_units (fix_artificial_lines_reasonable n) = storage_units n
    \<and> storage_units_t (fix_artificial_lines_reasonable n) = storage_units_t n
    \<and> snapshots (fix_artificial_lines_reasonable n) = snapshots n
    \<and> snapshot_weightings_objective (fix_artificial_lines_reasonable n) =
        snapshot_weightings_objective n
    \<and> map line_name (lines (fix_artificial_lines_reasonable n)) = map line_name (lines n)
    \<and> map bus0 (lines (fix_artificial_lines_reasonable n)) = map bus0 (lines n)
    \<and> map bus1 (lines (fix_artificial_lines_reasonable n)) = map bus1 (lines n)
    \<and> lines_has_s_nom_extendable (fix_artificial_lines_reasonable n) =
        (lines_has_s_nom_extendable n \<or> artificial_lines n \<noteq> [])
    \<and> (\<forall>i < length (lines n). line_name (lines n ! i) \<notin> set (artificial_lines n) \<longrightarrow>
          s_nom (lines (fix_artificial_lines_reasonable n) ! i) = s_nom (lines n ! i)
          \<and> (lines_has_s_nom_extendable n \<longrightarrow>
               s_nom_extendable (lines (fix_artificial_lines_reasonable n) ! i) =
                 s_nom_extendable (lines n ! i))
          \<and> (\<not> lines_has_s_nom_extendable n \<and> artificial_lines n \<noteq> [] \<longrightarrow>
               \<not> s_nom_extendable (lines (fix_artificial_lines_reasonable n) ! i)))"
proof (cases "artificial_lines n = []")
  case True
  then show ?thesis by (simp add: fix_no_lines)
next
  case False
  have l: "lines (fix_artificial_lines_reasonable n) =
      map (\<lambda>x. if line_name x \<in> set (artificial_lines n) then fixed_line (bus_max_demand n) x
               else new_column (lines_has_s_nom_extendable n) x) (lines n)"
    and h: "lines_has_s_nom_extendable (fix_artificial_lines_reasonable n)"
    using False by (simp_all add: fix_closed_form [OF assms])
  show ?thesis
    unfolding l using False h
    by (simp add: fix_frame comp_def new_column_def)
qed

theorem capacity_fixer_frame_witness:
  "distinct (map line_name (lines grid_example))
   \<and> s_nom (lines (fix_artificial_lines_reasonable grid_example) ! 1) = 0
   \<and> s_nom_extendable (lines (fix_artificial_lines_reasonable grid_example) ! 1)
   \<and> s_nom (lines (fix_artificial_lines_reasonable grid_example) ! 2) = 700
   \<and> distinct (map line_name (lines fallback_example))
   \<and> s_nom (lines (fix_artificial_lines_reasonable fallback_example) ! 1) = 700
   \<and> \<not> s_nom_extendable (lines (fix_artificial_lines_reasonable fallback_example) ! 1)
   \<and> buses (fix_artificial_lines_reasonable grid_example) = buses grid_example"
proof -
  have g: "lines grid_example ! Suc 0 =
      \<lparr>line_name = ''L2'', bus0 = ''B'', bus1 = ''C'', s_nom = 0, s_nom_extendable = True\<rparr>"
    "lines grid_example ! Suc (Suc 0) =
      \<lparr>line_name = ''L3'', bus0 = ''A'', bus1 = ''C'', s_nom = 700, s_nom_extendable = True\<rparr>"
    "length (lines grid_example) = Suc (Suc (Suc 0))" "lines_has_s_nom_extendable grid_example"
    by (simp_all add: grid_example_def)
  have f: "lines fallback_example ! Suc 0 =
      \<lparr>line_name = ''L3'', bus0 = ''A'', bus1 = ''C'', s_nom = 700, s_nom_extendable = True\<rparr>"
    "length (lines fallback_example) = Suc (Suc 0)" "\<not> lines_has_s_nom_extendable fallback_example"
    by (simp_all add: fallback_example_def)
  show ?thesis
    using capacity_fixer_frame [OF example_distinct(1)] capacity_fixer_frame [OF example_distinct(2)]
      example_distinct
    by (simp add: g f grid_example_detect fallback_example_detect numeral_2_eq_2 All_less_Suc)
qed

section \<open>Claims about the Storage Parameter Normalizer\<close>

lemma starts_with_iff: "starts_with needle hay \<longleftrightarrow> (\<exists>after. hay = needle @ after)"
  by (induction needle hay rule: starts_with.induct) auto

lemma str_contains_iff: "str_contains needle hay \<longleftrightarrow> contains_substring needle hay"
proof (induction hay)
  case Nil
  then show ?case by (simp add: contains_substring_def)
next
  case (Cons h hs)
  have "contains_substring needle (h # hs) \<longleftrightarrow>
      (\<exists>after. h # hs = needle @ after) \<or> contains_substring needle hs"
    unfolding contains_substring_def
  proof
    assume "\<exists>before after. h # hs = before @ needle @ after"
    then obtain before after where e: "h # hs = before @ needle @ after" by blast
    show "(\<exists>after. h # hs = needle @ after) \<or> (\<exists>before after. hs = before @ needle @ after)"
    proof (cases before)
      case Nil
      then show ?thesis using e by auto
    next
      case (Cons b bs)
      then have "hs = bs @ needle @ after" using e by simp
      then show ?thesis by blast
    qed
  next
    assume "(\<exists>after. h # hs = needle @ after) \<or> (\<exists>before after. hs = before @ needle @ after)"
    then show "\<exists>before after. h # hs = before @ needle @ after"
    proof
      assume "\<exists>after. h # hs = needle @ after"
      then obtain after where "h # hs = [] @ needle @ after" by auto
      then show ?thesis by blast
    next
      assume "\<exists>before after. hs = before @ needle @ after"
      then obtain before after where "hs = before @ needle @ after" by blast
      then have "h # hs = (h # before) @ needle @ after" by simp
      then show ?thesis by blast
    qed
  qed
  then show ?case using Cons.IH by (simp add: starts_with_iff)
qed

lemma normalized_simps [simp]:
  "storage_name (normalized u) = storage_name u"
  "normalized (normalized u) = normalized u"
  by (simp_all add: normalized_def)

lemma normalize_storage_unit_map:
  "normalize_storage_unit nm rows =
     map (\<lambda>u. if storage_name u = nm then normalized u else u) rows"
  by (simp add: normalize_storage_unit_def set_storage_def normalized_def Let_def)

lemma fold_normalize_storage_unit:
  "fold normalize_storage_unit names rows =
     map (\<lambda>u. if storage_name u \<in> set names then normalized u else u) rows"
proof (induction names arbitrary: rows)
  case Nil
  then show ?case by simp
next
  case (Cons nm names)
  have "fold normalize_storage_unit (nm # names) rows =
      fold normalize_storage_unit names (normalize_storage_unit nm rows)"
    by simp
  also have "\<dots> = map (\<lambda>u. if storage_name u \<in> set names then normalized u else u)
      (normalize_storage_unit nm rows)"
    by (rule Cons.IH)
  also have "\<dots> = map (\<lambda>u. if storage_name u \<in> set (nm # names) then normalized u else u) rows"
    by (auto simp: normalize_storage_unit_map)
  finally show ?case .
qed

lemma storage_units_normalized:
  "storage_units (normalize_storage_units n) = map normalized (storage_units n)"
  by (simp add: normalize_storage_units_def fold_normalize_storage_unit)

text \<open>
  Claim C3. After the normalizer every storage unit has \<open>cyclic_state_of_charge\<close> false,
  \<open>marginal_cost\<close> 0.01, \<open>marginal_cost_storage\<close> 0.01, \<open>spill_cost\<close> 0.1 and
  \<open>efficiency_store\<close> 0.866025, whatever they were. Its \<open>max_hours\<close> is 8.0 if its name has
  the pumped-hydro marker, else 6.0 if it has the hydro marker, else what it was. The table
  keeps its length and its names, and with no storage unit the network is returned unchanged.
\<close>

theorem storage_normalization:
  "length (storage_units (normalize_storage_units n)) = length (storage_units n)
   \<and> (\<forall>i < length (storage_units n).
        storage_name (storage_units (normalize_storage_units n) ! i) =
          storage_name (storage_units n ! i)
        \<and> \<not> cyclic_state_of_charge (storage_units (normalize_storage_units n) ! i)
        \<and> marginal_cost (storage_units (normalize_storage_units n) ! i) = 0.01
        \<and> marginal_cost_storage (storage_units (normalize_storage_units n) ! i) = 0.01
        \<and> spill_cost (storage_units (normalize_storage_units n) ! i) = 0.1
        \<and> efficiency_store (storage_units (normalize_storage_units n) ! i) = 0.866025
        \<and> max_hours (storage_units (normalize_storage_units n) ! i) =
            (if str_contains ''PHS'' (storage_name (storage_units n ! i)) then 8.0
             else if str_contains ''hydro'' (storage_name (storage_units n ! i)) then 6.0
             else max_hours (storage_units n ! i)))
   \<and> (storage_units n = [] \<longrightarrow> normalize_storage_units n = n)"
  by (simp add: storage_units_normalized) (simp add: normalized_def normalize_storage_units_def)

lemma storage_example_rows:
  "length (storage_units storage_example) = 4"
  "storage_units storage_example ! 0 =
     \<lparr>storage_name = ''ZA0 0 PHS hydro'', cyclic_state_of_charge = True, marginal_cost = 5,
       marginal_cost_storage = 0, spill_cost = 0, efficiency_store = 1, max_hours = 100\<rparr>"
  "storage_units storage_example ! Suc 0 =
     \<lparr>storage_name = ''ZA0 1 hydro'', cyclic_state_of_charge = True, marginal_cost = 5,
       marginal_cost_storage = 0, spill_cost = 0, efficiency_store = 1, max_hours = 3000\<rparr>"
  "storage_units storage_example ! 2 =
     \<lparr>storage_name = ''phs'', cyclic_state_of_charge = True, marginal_cost = 5,
       marginal_cost_storage = 0, spill_cost = 0, efficiency_store = 1, max_hours = 11\<rparr>"
  "storage_units storage_example ! 3 =
     \<lparr>storage_name = ''Hydro'', cyclic_state_of_charge = False, marginal_cost = 5,
       marginal_cost_storage = 0, spill_cost = 0, efficiency_store = 1, max_hours = 12\<rparr>"
  by (simp_all add: storage_example_def)

lemma example_names:
  "contains_substring ''PHS'' ''ZA0 0 PHS hydro''"
  "contains_substring ''hydro'' ''ZA0 0 PHS hydro''"
  "\<not> contains_substring ''PHS'' ''ZA0 1 hydro''"
  "contains_substring ''hydro'' ''ZA0 1 hydro''"
  "\<not> contains_substring ''PHS'' ''phs''"
  "\<not> contains_substring ''hydro'' ''phs''"
  "\<not> contains_substring ''PHS'' ''Hydro''"
  "\<not> contains_substring ''hydro'' ''Hydro''"
  by (simp_all add: str_contains_iff [symmetric])

theorem storage_normalization_witness:
  "(1::nat) < length (storage_units storage_example)
   \<and> \<not> cyclic_state_of_charge (storage_units (normalize_storage_units storage_example) ! 1)
   \<and> marginal_cost (storage_units (normalize_storage_units storage_example) ! 1) = 0.01
   \<and> marginal_cost_storage (storage_units (normalize_storage_units storage_example) ! 1) = 0.01
   \<and> spill_cost (storage_units (normalize_storage_units storage_example) ! 1) = 0.1
   \<and> efficiency_store (storage_units (normalize_storage_units storage_example) ! 1) = 0.866025
   \<and> max_hours (storage_units (normalize_storage_units storage_example) ! 1) = 6
   \<and> max_hours (storage_units (normalize_storage_units storage_example) ! 0) = 8
   \<and> max_hours (storage_units (normalize_storage_units storage_example) ! 2) = 11
   \<and> storage_units scenario1 = [] \<and> normalize_storage_units scenario1 = scenario1"
proof -
  have e: "storage_units scenario1 = []" by (simp add: scenario1_def)
  have len: "(0::nat) < length (storage_units storage_example)"
    "(1::nat) < length (storage_units storage_example)"
    "(2::nat) < length (storage_units storage_example)"
    by (simp_all add: storage_example_rows)
  note all = storage_normalization [of storage_example, THEN conjunct2, THEN conjunct1, rule_format]
  show ?thesis
    using all [OF len(1)] all [OF len(2)] all [OF len(3)]
      storage_normalization [of scenario1, THEN conjunct2, THEN conjunct2, rule_format, OF e]
    by (simp add: storage_example_rows e)
qed

text \<open>
  Claim C8. The category test is a case-sensitive substring test with a priority: \<open>max_hours\<close>
  becomes 8.0 when the name contains \<^verbatim>\<open>PHS\<close>; 6.0 when it does not contain \<^verbatim>\<open>PHS\<close> but
  contains \<^verbatim>\<open>hydro\<close>; and stays as it was otherwise. A name with both gets 8.0. The names
  \<^verbatim>\<open>phs\<close> and \<^verbatim>\<open>Hydro\<close> contain neither marker.
\<close>

theorem storage_category_match_case_sensitive:
  "(\<forall>i < length (storage_units n).
      (contains_substring ''PHS'' (storage_name (storage_units n ! i)) \<longrightarrow>
         max_hours (storage_units (normalize_storage_units n) ! i) = 8.0)
      \<and> (\<not> contains_substring ''PHS'' (storage_name (storage_units n ! i))
           \<and> contains_substring ''hydro'' (storage_name (storage_units n ! i)) \<longrightarrow>
         max_hours (storage_units (normalize_storage_units n) ! i) = 6.0)
      \<and> (\<not> contains_substring ''PHS'' (storage_name (storage_units n ! i))
           \<and> \<not> contains_substring ''hydro'' (storage_name (storage_units n ! i)) \<longrightarrow>
         max_hours (storage_units (normalize_storage_units n) ! i) =
           max_hours (storage_units n ! i)))
   \<and> \<not> contains_substring ''PHS'' ''phs'' \<and> \<not> contains_substring ''hydro'' ''phs''
   \<and> \<not> contains_substring ''PHS'' ''Hydro'' \<and> \<not> contains_substring ''hydro'' ''Hydro''"
  by (simp add: storage_units_normalized example_names)
    (simp add: normalized_def str_contains_iff)

theorem storage_category_match_case_sensitive_witness:
  "max_hours (storage_units (normalize_storage_units storage_example) ! 0) = 8
   \<and> max_hours (storage_units (normalize_storage_units storage_example) ! 1) = 6
   \<and> max_hours (storage_units (normalize_storage_units storage_example) ! 2) = 11
   \<and> max_hours (storage_units (normalize_storage_units storage_example) ! 3) = 12"
proof -
  have len: "(0::nat) < length (storage_units storage_example)"
    "(1::nat) < length (storage_units storage_example)"
    "(2::nat) < length (storage_units storage_example)"
    "(3::nat) < length (storage_units storage_example)"
    by (simp_all add: storage_example_rows)
  note all = storage_category_match_case_sensitive
    [of storage_example, THEN conjunct1, rule_format]
  show ?thesis
    using all [OF len(1)] all [OF len(2)] all [OF len(3)] all [OF len(4)]
    by (simp add: storage_example_rows example_names)
qed

section \<open>Claims about the Invalid Generator Pruner\<close>

lemma drop_columns_simps [simp]:
  "drop_columns [] df = df"
  "drop_columns names (drop_column nm df) = drop_columns (nm # names) df"
  by (auto simp: drop_columns_def drop_column_def intro: filter_cong)

lemma fold_remove_generator:
  "fold remove_generator names n =
     n\<lparr>generators := filter (\<lambda>g. gen_name g \<notin> set names) (generators n),
       generators_t := map (\<lambda>(a, df). (a, drop_columns names df)) (generators_t n)\<rparr>"
proof (induction names arbitrary: n)
  case Nil
  then show ?case by (simp add: case_prod_unfold)
next
  case (Cons nm names)
  have "fold remove_generator (nm # names) n = fold remove_generator names (remove_generator nm n)"
    by simp
  also have "\<dots> = (remove_generator nm n)
      \<lparr>generators := filter (\<lambda>g. gen_name g \<notin> set names) (generators (remove_generator nm n)),
       generators_t := map (\<lambda>(a, df). (a, drop_columns names df))
          (generators_t (remove_generator nm n))\<rparr>"
    by (rule Cons.IH)
  also have "\<dots> = n\<lparr>generators := filter (\<lambda>g. gen_name g \<notin> set (nm # names)) (generators n),
       generators_t := map (\<lambda>(a, df). (a, drop_columns (nm # names) df)) (generators_t n)\<rparr>"
    by (auto simp: remove_generator_def case_prod_unfold intro: filter_cong)
  finally show ?case .
qed

lemma match_ignorecase_lower: "starts_with pat (lower hay) \<Longrightarrow> match_ignorecase pat hay"
  by (induction pat hay rule: match_ignorecase.induct) (auto simp: lower_def)

lemma search_ignorecase_lower: "str_contains pat (lower hay) \<Longrightarrow> search_ignorecase pat hay"
proof (induction hay)
  case Nil
  then show ?case by (simp add: lower_def)
next
  case (Cons h hs)
  then show ?case
    using match_ignorecase_lower [of pat "h # hs"] by (auto simp: lower_def)
qed

lemma is_offwind_ascii: "contains_substring ''offwind'' (lower nm) \<Longrightarrow> is_offwind nm"
  by (simp add: is_offwind_def search_ignorecase_lower str_contains_iff)

lemma is_offwind_dotless_i: "is_offwind (''ZA0 0 offw'' @ [CHR 0xC4, CHR 0xB1] @ ''nd'')"
  by (simp add: is_offwind_def)

lemma remove_offshore_wind_eq:
  assumes "generators_has_str_index n"
  shows "remove_offshore_wind n =
     Inr (n\<lparr>generators := filter (\<lambda>g. \<not> is_offwind (gen_name g)) (generators n),
            generators_t :=
              map (\<lambda>(a, df). (a, drop_columns (filter is_offwind (map gen_name (generators n))) df))
                (generators_t n)\<rparr>)"
proof -
  have "filter (\<lambda>g. gen_name g \<notin> set (filter is_offwind (map gen_name (generators n))))
          (generators n) =
      filter (\<lambda>g. \<not> is_offwind (gen_name g)) (generators n)"
    by (rule filter_cong) auto
  then show ?thesis
    using assms by (simp add: remove_offshore_wind_def offwind_gens_def fold_remove_generator)
qed

text \<open>
  On a generator table with an index of strings the pruner returns a network. Every generator
  whose name matches the marker is gone from the generator table and from the columns of every
  time-series table of the generators; the others are kept in their order; with no match the
  network is returned unchanged.
\<close>

lemma pruner_removes_matching_generators:
  assumes "generators_has_str_index n"
  shows "\<exists>n'. remove_offshore_wind n = Inr n'
     \<and> generators n' = filter (\<lambda>g. \<not> is_offwind (gen_name g)) (generators n)
     \<and> (\<forall>g \<in> set (generators n). is_offwind (gen_name g) \<longrightarrow>
           gen_name g \<notin> gen_name ` set (generators n')
           \<and> (\<forall>tab \<in> set (generators_t n'). gen_name g \<notin> set (ts_columns (snd tab))))
     \<and> (offwind_gens n = Inr [] \<longrightarrow> n' = n)"
proof -
  let ?gens = "filter is_offwind (map gen_name (generators n))"
  let ?n' = "n\<lparr>generators := filter (\<lambda>g. \<not> is_offwind (gen_name g)) (generators n),
              generators_t := map (\<lambda>(a, df). (a, drop_columns ?gens df)) (generators_t n)\<rparr>"
  have r: "remove_offshore_wind n = Inr ?n'" by (rule remove_offshore_wind_eq [OF assms])
  have cols: "\<And>g tab. g \<in> set (generators n) \<Longrightarrow> is_offwind (gen_name g) \<Longrightarrow>
      tab \<in> set (generators_t ?n') \<Longrightarrow> gen_name g \<notin> set (ts_columns (snd tab))"
    by (auto simp: drop_columns_def)
  have noop: "offwind_gens n = Inr [] \<Longrightarrow> ?n' = n"
  proof -
    assume "offwind_gens n = Inr []"
    then have e: "?gens = []" using assms by (simp add: offwind_gens_def)
    then have "remove_offshore_wind n = Inr n"
      using assms by (simp add: remove_offshore_wind_def offwind_gens_def)
    then show "?n' = n" using r by simp
  qed
  show ?thesis
  proof (intro exI conjI ballI impI)
    show "remove_offshore_wind n = Inr ?n'" by (rule r)
    show "generators ?n' = filter (\<lambda>g. \<not> is_offwind (gen_name g)) (generators n)" by simp
    show "offwind_gens n = Inr [] \<Longrightarrow> ?n' = n" by (rule noop)
  next
    fix g assume g: "g \<in> set (generators n)" "is_offwind (gen_name g)"
    show "gen_name g \<notin> gen_name ` set (generators ?n')" using g by auto
    fix tab assume "tab \<in> set (generators_t ?n')"
    then show "gen_name g \<notin> set (ts_columns (snd tab))" using cols g by blast
  qed
qed

lemma generator_example_pruned:
  "\<exists>n'. remove_offshore_wind generator_example = Inr n'
     \<and> map gen_name (generators n') = [''ZA0 0 coal'']
     \<and> map (\<lambda>tab. ts_columns (snd tab)) (generators_t n') = [[''ZA0 0 coal''], []]"
proof -
  have i: "generators_has_str_index generator_example" by (simp add: generator_example_def)
  have o: "is_offwind ''ZA0 0 OffWind-ac''" "\<not> is_offwind ''ZA0 0 coal''"
    by (simp_all add: is_offwind_def)
  show ?thesis
    unfolding remove_offshore_wind_eq [OF i]
    by (simp add: generator_example_def o drop_columns_def)
qed

text \<open>
  Claim C4. The claim promises that the pruner is a no-op, not an error, when no generator
  matches the marker. The code breaks this on a network whose generator table never held a
  row, such as scenario 1: no generator matches there, and the search on the index (line 81)
  raises \<open>AttributeError\<close> instead of returning the network.
\<close>

theorem pruner_raises_on_unpopulated_generator_table:
  "generators scenario1 = []
   \<and> \<not> generators_has_str_index scenario1
   \<and> offwind_gens scenario1 = Inl AttributeError
   \<and> remove_offshore_wind scenario1 = Inl AttributeError"
  by (simp add: remove_offshore_wind_def offwind_gens_def scenario1_def)

section \<open>Claims about the Objective Reconstructor\<close>

lemma add_cost_has_series:
  assumes "has_series tabs a snaps names" "s \<in> set snaps" "fst ` set costs \<subseteq> set names"
  shows "add_cost tabs a costs s w tot =
     Inr (tot + (\<Sum>(nm, c)\<leftarrow>costs. c * series_value tabs a s nm) * w)"
proof -
  from assms(1) obtain df where df: "map_of tabs a = Some df"
    "set snaps \<subseteq> set (ts_index df)" "set names \<subseteq> set (ts_columns df)"
    by (auto simp: has_series_def split: option.splits)
  have "filter (\<lambda>(nm, c). nm \<in> set (ts_columns df)) costs = costs"
    using assms(3) df(3) by (force simp: filter_id_conv)
  then show ?thesis
    using df assms(2)
    by (auto simp: add_cost_def get_table_def cost_at_def series_value_def case_prod_unfold)
qed

lemma sum_costs_map:
  "(\<Sum>(nm, c)\<leftarrow>map (\<lambda>x. (name x, cost x)) xs. c * v nm) = (\<Sum>x\<leftarrow>xs. cost x * v (name x))"
  by (simp add: comp_def)

lemma objective_step_populated:
  assumes p: "populated n" and s: "s \<in> set (snapshots n)"
  shows "objective_step n s tot =
     Inr (tot + weight n s *
        (generator_cost n s + dispatch_cost n s + store_cost n s
         + (if hasattr (storage_units_t n) ''spill'' then spill_term n s else 0)))"
proof -
  from p s obtain w where w: "snapshot_weightings_objective n s = Some w"
    by (auto simp: populated_def)
  have wt: "weight n s = w" by (simp add: weight_def w)
  have gen: "(if length (generators n) > 0
                 then add_cost (generators_t n) ''p''
                        (map (\<lambda>g. (gen_name g, gen_marginal_cost g)) (generators n)) s w tot
                 else Inr tot) = Inr (tot + generator_cost n s * w)"
  proof (cases "generators n = []")
    case True
    then show ?thesis by (simp add: generator_cost_def)
  next
    case False
    then have h: "has_series (generators_t n) ''p'' (snapshots n) (map gen_name (generators n))"
      using p by (simp add: populated_def)
    show ?thesis
      using False add_cost_has_series [OF h s, of "map (\<lambda>g. (gen_name g, gen_marginal_cost g)) (generators n)" w tot]
      by (simp add: generator_cost_def dispatch_def comp_def image_image)
  qed
  have sto: "\<And>t. (if length (storage_units n) > 0 then storage_costs n s w t else Inr t) =
      Inr (t + dispatch_cost n s * w + store_cost n s * w
             + (if hasattr (storage_units_t n) ''spill'' then spill_term n s else 0) * w)"
  proof -
    fix t
    show "(if length (storage_units n) > 0 then storage_costs n s w t else Inr t) =
      Inr (t + dispatch_cost n s * w + store_cost n s * w
             + (if hasattr (storage_units_t n) ''spill'' then spill_term n s else 0) * w)"
    proof (cases "storage_units n = []")
      case True
      then show ?thesis by (simp add: dispatch_cost_def store_cost_def spill_term_def)
    next
      case False
      let ?names = "map storage_name (storage_units n)"
      have h1: "has_series (storage_units_t n) ''p_dispatch'' (snapshots n) ?names"
        and h2: "has_series (storage_units_t n) ''p_store'' (snapshots n) ?names"
        and h3: "hasattr (storage_units_t n) ''spill'' \<Longrightarrow>
                 has_series (storage_units_t n) ''spill'' (snapshots n) ?names"
        using p False by (simp_all add: populated_def)
      have a1: "\<And>t. add_cost (storage_units_t n) ''p_dispatch''
             (map (\<lambda>u. (storage_name u, marginal_cost u)) (storage_units n)) s w t =
             Inr (t + dispatch_cost n s * w)"
        using add_cost_has_series [OF h1 s, of "map (\<lambda>u. (storage_name u, marginal_cost u)) (storage_units n)"]
        by (simp add: dispatch_cost_def p_dispatch_def comp_def image_image)
      have a2: "\<And>t. add_cost (storage_units_t n) ''p_store''
             (map (\<lambda>u. (storage_name u, marginal_cost_storage u)) (storage_units n)) s w t =
             Inr (t + store_cost n s * w)"
        using add_cost_has_series [OF h2 s, of "map (\<lambda>u. (storage_name u, marginal_cost_storage u)) (storage_units n)"]
        by (simp add: store_cost_def p_store_def comp_def image_image)
      have a3: "\<And>t. hasattr (storage_units_t n) ''spill'' \<Longrightarrow> add_cost (storage_units_t n) ''spill''
             (map (\<lambda>u. (storage_name u, spill_cost u)) (storage_units n)) s w t =
             Inr (t + spill_term n s * w)"
        using add_cost_has_series [OF h3 s, of "map (\<lambda>u. (storage_name u, spill_cost u)) (storage_units n)"]
        by (simp add: spill_term_def spill_def comp_def image_image)
      show ?thesis
        using False by (simp add: storage_costs_def a1 a2 a3)
    qed
  qed
  show ?thesis
    unfolding objective_step_def w option.case gen sum.case sto wt
    by (simp add: algebra_simps)
qed

lemma objective_loop_populated:
  assumes "populated n" "set ss \<subseteq> set (snapshots n)"
  shows "objective_loop n ss tot =
     Inr (tot + (\<Sum>s\<leftarrow>ss. weight n s *
        (generator_cost n s + dispatch_cost n s + store_cost n s
         + (if hasattr (storage_units_t n) ''spill'' then spill_term n s else 0))))"
  using assms(2)
proof (induction ss arbitrary: tot)
  case Nil
  then show ?case by simp
next
  case (Cons s ss)
  then show ?case
    by (simp add: objective_step_populated [OF assms(1)] add.assoc)
qed

lemma total_objective_populated:
  "populated n \<Longrightarrow> total_objective n = Inr (objective_spec n)"
  by (simp add: total_objective_def objective_spec_def objective_loop_populated)

lemma objective_spec_empty:
  "generators n = [] \<Longrightarrow> storage_units n = [] \<Longrightarrow> objective_spec n = 0"
  by (simp add: objective_spec_def generator_cost_def dispatch_cost_def store_cost_def
      spill_term_def cong: if_cong)

lemma scenario3_populated: "populated scenario3"
  by (simp add: populated_def scenario3_def has_series_def)

lemma scenario3_objective: "objective_spec scenario3 = 190"
  by (simp add: objective_spec_def scenario3_def generator_cost_def dispatch_cost_def
      store_cost_def weight_def dispatch_def series_value_def hasattr_def)

text \<open>
  Claim C2. For a network whose time series are populated, the reconstructor returns the sum
  over the snapshots of the weight times the sum of: marginal cost times dispatch over the
  generators, marginal cost times \<open>p_dispatch\<close> over the storage units, storage marginal cost
  times \<open>p_store\<close> over the storage units, and, when spill data exists, spill cost times spill
  over the storage units. With no generator and no storage unit the total is 0, and the total
  of scenario 3 is 190.
\<close>

theorem objective_reconstruction:
  "(populated n \<longrightarrow> total_objective n = Inr (objective_spec n))
   \<and> (populated n \<and> generators n = [] \<and> storage_units n = [] \<longrightarrow> total_objective n = Inr 0)
   \<and> total_objective scenario3 = Inr 190"
  using total_objective_populated [OF scenario3_populated]
  by (auto simp: total_objective_populated objective_spec_empty scenario3_objective)

theorem objective_reconstruction_witness:
  "populated scenario3 \<and> objective_spec scenario3 = 190 \<and> total_objective scenario3 = Inr 190"
  using objective_reconstruction [of scenario3, THEN conjunct1, rule_format, OF scenario3_populated]
  by (simp add: scenario3_populated scenario3_objective)

lemma objective_spec_split:
  "objective_spec n =
     objective_without_spill n + (if hasattr (storage_units_t n) ''spill'' then spill_total n else 0)"
  by (simp add: objective_spec_def objective_without_spill_def spill_total_def distrib_left
      sum_list_addf)

lemma objective_step_spill_cost:
  assumes "\<not> hasattr (storage_units_t n) ''spill''"
  shows "objective_step (n\<lparr>storage_units := map (\<lambda>u. u\<lparr>spill_cost := f u\<rparr>) (storage_units n)\<rparr>) s tot
     = objective_step n s tot"
proof -
  let ?n' = "n\<lparr>storage_units := map (\<lambda>u. u\<lparr>spill_cost := f u\<rparr>) (storage_units n)\<rparr>"
  have st: "\<And>w t. storage_costs ?n' s w t = storage_costs n s w t"
    using assms by (simp add: storage_costs_def comp_def cong: sum.case_cong if_cong)
  show ?thesis
    by (simp add: objective_step_def st cong: option.case_cong sum.case_cong if_cong)
qed

lemma objective_loop_spill_cost:
  assumes "\<not> hasattr (storage_units_t n) ''spill''"
  shows "objective_loop (n\<lparr>storage_units := map (\<lambda>u. u\<lparr>spill_cost := f u\<rparr>) (storage_units n)\<rparr>) ss tot
     = objective_loop n ss tot"
  by (induction ss arbitrary: tot)
    (simp_all add: objective_step_spill_cost [OF assms] cong: sum.case_cong)

lemma scenario4_populated: "populated scenario4"
  by (simp add: populated_def scenario4_def has_series_def hasattr_def)

lemma scenario4_no_spill: "\<not> hasattr (storage_units_t scenario4) ''spill''"
  by (simp add: scenario4_def hasattr_def)

lemma scenario4_objective: "objective_without_spill scenario4 = 0.16"
  by (simp add: objective_without_spill_def scenario4_def generator_cost_def dispatch_cost_def
      store_cost_def weight_def p_dispatch_def p_store_def series_value_def)

text \<open>
  Claim C7. The spill term is part of the total exactly when the result tables have spill data:
  the total is the total without spill, plus the spill total when the data exists and plus
  nothing when it does not; the missing table is not an error. Without spill data the result
  (value or error) does not depend on the spill costs of the storage units.
\<close>

theorem spill_term_only_with_spill_data:
  "(populated n \<longrightarrow>
      total_objective n =
        Inr (objective_without_spill n
             + (if hasattr (storage_units_t n) ''spill'' then spill_total n else 0)))
   \<and> (\<not> hasattr (storage_units_t n) ''spill'' \<longrightarrow>
        (\<forall>f. total_objective
                (n\<lparr>storage_units := map (\<lambda>u. u\<lparr>spill_cost := f u\<rparr>) (storage_units n)\<rparr>)
              = total_objective n))"
proof (intro conjI impI allI)
  assume "populated n"
  then show "total_objective n =
        Inr (objective_without_spill n
             + (if hasattr (storage_units_t n) ''spill'' then spill_total n else 0))"
    by (simp only: total_objective_populated objective_spec_split)
next
  fix f assume "\<not> hasattr (storage_units_t n) ''spill''"
  then show "total_objective
                (n\<lparr>storage_units := map (\<lambda>u. u\<lparr>spill_cost := f u\<rparr>) (storage_units n)\<rparr>)
              = total_objective n"
    by (simp add: total_objective_def objective_loop_spill_cost)
qed

theorem spill_term_only_with_spill_data_witness:
  "populated scenario4 \<and> \<not> hasattr (storage_units_t scenario4) ''spill''
   \<and> total_objective scenario4 = Inr 0.16"
  using spill_term_only_with_spill_data
    [of scenario4, THEN conjunct1, rule_format, OF scenario4_populated]
  by (simp add: scenario4_populated scenario4_no_spill scenario4_objective)

end
